(* ===== verification/Nimbu_Prelude.thy ===== *)
theory Nimbu_Prelude
  imports Main "HOL-Library.Word"
begin

text \<open>
  What every component of the kernel model shares: the C integer types of
  \<^verbatim>\<open>include/types.h\<close> as machine words, byte-addressed memory with little-endian
  32-bit accesses (the i686 target of the \<^verbatim>\<open>Makefile\<close>), the collections of
  rewrite rules the component proofs draw on, and the lemmas on words, memory and counting
  loops that carry them.
\<close>

unbundle bit_operations_syntax

section \<open>Integer types\<close>

text \<open>\<^verbatim>\<open>uint8_t\<close>, \<^verbatim>\<open>uint16_t\<close> and \<^verbatim>\<open>uint32_t\<close>; \<^verbatim>\<open>size_t\<close>, \<^verbatim>\<open>uintptr_t\<close> and the two address
  types are 32 bits wide.\<close>

type_synonym u8 = "8 word"
type_synonym u16 = "16 word"
type_synonym u32 = "32 word"

named_theorems mem_simps \<open>reading memory after writing it\<close>
named_theorems frame_simps \<open>what an operation leaves alone\<close>

section \<open>Byte memory\<close>

type_synonym memory = "u32 \<Rightarrow> u8"

text \<open>Four consecutive bytes, least significant first; address arithmetic wraps at 32 bits.\<close>

definition load32 :: "memory \<Rightarrow> u32 \<Rightarrow> u32" where
  "load32 m a =
     ucast (m a) OR push_bit 8 (ucast (m (a + 1)))
       OR push_bit 16 (ucast (m (a + 2))) OR push_bit 24 (ucast (m (a + 3)))"

definition store32 :: "memory \<Rightarrow> u32 \<Rightarrow> u32 \<Rightarrow> memory" where
  "store32 m a v =
     m(a := ucast v, a + 1 := ucast (drop_bit 8 v),
       a + 2 := ucast (drop_bit 16 v), a + 3 := ucast (drop_bit 24 v))"

text \<open>Two 4-byte cells do not overlap, wrap-around included.\<close>

definition cells_apart :: "u32 \<Rightarrow> u32 \<Rightarrow> bool" where
  "cells_apart a b \<longleftrightarrow> 4 \<le> a - b \<and> 4 \<le> b - a"

lemma word_less_4: "x < (4::u32) \<longleftrightarrow> x = 0 \<or> x = 1 \<or> x = 2 \<or> x = 3"
proof -
  have "unat x < 4 \<longleftrightarrow> unat x = 0 \<or> unat x = 1 \<or> unat x = 2 \<or> unat x = 3" by arith
  then show ?thesis
    by (simp add: word_less_nat_alt word_unat_eq_iff)
qed

lemma cells_apart_sym: "cells_apart a b \<longleftrightarrow> cells_apart b a"
  by (auto simp: cells_apart_def)

lemma bytes_of_word:
  "ucast (ucast v :: u8) OR push_bit 8 (ucast (ucast (drop_bit 8 v) :: u8))
     OR push_bit 16 (ucast (ucast (drop_bit 16 v) :: u8))
     OR push_bit 24 (ucast (ucast (drop_bit 24 v) :: u8)) = (v :: u32)"
proof (rule bit_word_eqI)
  fix n
  assume "n < LENGTH(32)"
  then consider "n < 8" | "8 \<le> n" "n < 16" | "16 \<le> n" "n < 24" | "24 \<le> n" "n < 32"
    by force
  then show "bit (ucast (ucast v :: u8) OR push_bit 8 (ucast (ucast (drop_bit 8 v) :: u8))
     OR push_bit 16 (ucast (ucast (drop_bit 16 v) :: u8))
     OR push_bit 24 (ucast (ucast (drop_bit 24 v) :: u8)) :: u32) n = bit v n"
    by cases (auto simp: bit_simps)
qed

lemma load32_store32_same [simp, mem_simps]: "load32 (store32 m a v) a = v"
  by (simp add: load32_def store32_def bytes_of_word)

lemma store32_other:
  assumes "\<not> x - a < 4"
  shows "store32 m a v x = m x"
proof -
  have "x \<noteq> a \<and> x \<noteq> a + 1 \<and> x \<noteq> a + 2 \<and> x \<noteq> a + 3"
    using assms by (auto simp: word_less_4 diff_eq_eq add.commute)
  then show ?thesis by (simp add: store32_def)
qed

lemma load32_cong:
  assumes "\<And>i. i < 4 \<Longrightarrow> m (a + i) = m' (a + i)"
  shows "load32 m a = load32 m' a"
  using assms [of 0] assms [of 1] assms [of 2] assms [of 3]
  by (simp add: load32_def)

lemma cells_apart_offset:
  assumes "cells_apart a b" and "i < 4"
  shows "\<not> (b + i) - a < 4"
proof -
  have "4 \<le> b - a" "4 \<le> a - b" using assms(1) by (auto simp: cells_apart_def)
  then show ?thesis using assms(2)
    by (simp add: word_less_nat_alt word_le_nat_alt) (unat_arith)
qed

lemma load32_store32_apart [mem_simps]:
  "cells_apart a b \<Longrightarrow> load32 (store32 m a v) b = load32 m b"
  by (rule load32_cong) (simp add: store32_other cells_apart_offset)

lemma load32_upd_other [mem_simps]:
  "\<not> x - a < 4 \<Longrightarrow> load32 (m(x := v)) a = load32 m a"
  by (rule load32_cong) auto

section \<open>Counting loops\<close>

text \<open>
  A \<^verbatim>\<open>for\<close> loop that writes one cell per iteration is a fold over the indices; what it
  leaves in a cell it wrote, and in every other cell.
\<close>

lemma fold_fun_upd_notin:
  "(\<And>i. i \<in> set is \<Longrightarrow> f i \<noteq> x) \<Longrightarrow> fold (\<lambda>i m. m(f i := v i)) is m x = m x"
  by (induction "is" arbitrary: m) auto

lemma fold_fun_upd_in:
  assumes "inj_on f (set is)" and "j \<in> set is"
  shows "fold (\<lambda>i m. m(f i := v i)) is m (f j) = v j"
  using assms
proof (induction "is" arbitrary: m)
  case (Cons i "is")
  show ?case
  proof (cases "j \<in> set is")
    case True
    with Cons show ?thesis by (simp add: inj_on_def)
  next
    case False
    with Cons.prems have ji: "j = i" by simp
    have "\<And>l. l \<in> set is \<Longrightarrow> f l \<noteq> f i"
      using Cons.prems(1) False ji by (metis inj_onD list.set_intros(1) list.set_intros(2))
    then show ?thesis using ji by (simp add: fold_fun_upd_notin del: fun_upd_apply) simp
  qed
qed simp

lemma fold_store32_apart:
  "(\<And>i. i \<in> set is \<Longrightarrow> cells_apart (f i) a) \<Longrightarrow>
     load32 (fold (\<lambda>i m. store32 m (f i) (v i)) is m) a = load32 m a"
  by (induction "is" arbitrary: m) (auto simp: mem_simps)

lemma fold_store32_in:
  assumes "\<And>i i'. i \<in> set is \<Longrightarrow> i' \<in> set is \<Longrightarrow> i \<noteq> i' \<Longrightarrow> cells_apart (f i) (f i')"
    and "distinct is" and "j \<in> set is"
  shows "load32 (fold (\<lambda>i m. store32 m (f i) (v i)) is m) (f j) = v j"
  using assms
proof (induction "is" arbitrary: m)
  case (Cons i "is")
  show ?case
  proof (cases "j = i")
    case True
    have "\<And>l. l \<in> set is \<Longrightarrow> cells_apart (f l) (f i)"
      using Cons.prems(1,2) by (metis distinct.simps(2) list.set_intros(1) list.set_intros(2))
    then show ?thesis using True by (simp add: fold_store32_apart)
  next
    case False
    have "load32 (fold (\<lambda>i m. store32 m (f i) (v i)) is (store32 m (f i) (v i))) (f j) = v j"
      by (rule Cons.IH) (use Cons.prems False in auto)
    then show ?thesis by simp
  qed
qed simp

text \<open>The invariant rule for a fold.\<close>

lemma fold_invariant_rule:
  assumes "P s" and "\<And>x s. x \<in> set xs \<Longrightarrow> P s \<Longrightarrow> P (f x s)"
  shows "P (fold f xs s)"
  using assms by (induction xs arbitrary: s) auto

text \<open>The first index that is not in a set of indices below a bound.\<close>

lemma least_missing:
  assumes "F \<subseteq> {..<n}" and "F \<noteq> {..<n}"
  obtains i where "i < (n::nat)" "i \<notin> F" "\<forall>j<i. j \<in> F"
proof -
  have ex: "\<exists>i. i < n \<and> i \<notin> F" using assms by auto
  let ?i = "LEAST i. i < n \<and> i \<notin> F"
  have i: "?i < n" "?i \<notin> F" using LeastI_ex [OF ex] by auto
  have "j \<in> F" if "j < ?i" for j
    using not_less_Least [OF that] less_trans [OF that i(1)] by blast
  with i that show ?thesis by blast
qed

section \<open>Words as numbers\<close>

lemma unat_less_2p32 [simp]: "unat (x :: u32) < 4294967296"
  using unsigned_less [of x, where ?'a = nat] by simp

lemma unat_of_nat_u32 [simp]: "n < 4294967296 \<Longrightarrow> unat (of_nat n :: u32) = n"
  by (simp add: unat_of_nat)

lemma of_nat_u32_eq_iff:
  "a < 4294967296 \<Longrightarrow> b < 4294967296 \<Longrightarrow> (of_nat a :: u32) = of_nat b \<longleftrightarrow> a = b"
  by (metis unat_of_nat_u32)

lemma of_nat_unat_u32: "of_nat (unat (w :: u32)) = w"
  by simp

lemma unat_Suc_u32: "(i :: u32) < n \<Longrightarrow> unat (i + 1) = Suc (unat i)"
  by unat_arith

section \<open>Transition systems\<close>

text \<open>What every step keeps, every run keeps.\<close>

locale step_invariant =
  fixes step :: "'s \<Rightarrow> 's \<Rightarrow> bool" and inv :: "'s \<Rightarrow> bool"
  assumes step_keeps: "step s t \<Longrightarrow> inv s \<Longrightarrow> inv t"
begin

lemma run_keeps: "step\<^sup>*\<^sup>* s t \<Longrightarrow> inv s \<Longrightarrow> inv t"
  by (induction rule: rtranclp_induct) (auto intro: step_keeps)

end

section \<open>Single bits\<close>

text \<open>A bound on the masks of single bits.\<close>

lemma bit_1_iff_u [simp]: "bit (1 :: 'a::len word) n \<longleftrightarrow> n = 0"
  by (simp add: bit_1_iff)

end
