(* ===== verification/Kernel_State.thy ===== *)
theory Kernel_State
  imports Nimbu_Prelude
begin

text \<open>
  The data of the kernel: the structures of \<^verbatim>\<open>include/*.h\<close> and of the C files, the static
  variables of every file, and the machine the kernel runs on, gathered in one record
  \<open>kernel\<close>. A C function of the kernel is a function on this record, which it returns
  updated; \<open>boot_kernel\<close> is the state at the entry of \<^verbatim>\<open>kmain\<close>, with every static variable
  at the value its C initialiser gives it.

  \<^item> Memory reached through pointers (heap blocks, the page bitmap, page tables, saved
    register contexts) is the one byte memory \<open>mem\<close>, indexed by the addresses the code
    dereferences, so that overlapping regions really overlap. The tables of the
    higher-half window and the low window are told apart by address; what the paging
    hardware makes of them is the subject of theory Vmm.
  \<^item> Statics that the code only reaches by name (process table, descriptor tables, driver
    states) are fields of their own. Where the code takes the address of a static
    (\<^verbatim>\<open>&kernel_page_tables[i]\<close>, the interrupt stubs) the address is chosen by the linker or
    by assembly files outside the repository: it is a field of the parameter \<open>layout\<close>.
  \<^item> Port input is an environment: \<open>port_in p n\<close> is what the \<open>n\<close>-th read of port \<open>p\<close>
    returns. Port output, \<^verbatim>\<open>invlpg\<close> and the loads of control and segment registers are
    recorded.
\<close>

section \<open>Constants of the headers\<close>

definition KERNEL_VIRT_BASE :: u32 where "KERNEL_VIRT_BASE = 0xC0000000"
definition PAGE_SIZE :: u32 where "PAGE_SIZE = 4096"

definition PAGE_PRESENT :: u32 where "PAGE_PRESENT = 1"
definition PAGE_WRITE :: u32 where "PAGE_WRITE = 2"

definition MAX_PROCESSES :: nat where "MAX_PROCESSES = 256"
definition SCHEDULER_TIME_SLICE :: u32 where "SCHEDULER_TIME_SLICE = 10"

definition PHYS_TO_VIRT :: "u32 \<Rightarrow> u32" where "PHYS_TO_VIRT addr = addr + KERNEL_VIRT_BASE"
definition VIRT_TO_PHYS :: "u32 \<Rightarrow> u32" where "VIRT_TO_PHYS addr = addr - KERNEL_VIRT_BASE"

text \<open>\<^verbatim>\<open>VGA_COLOR(fg, bg)\<close> on the sixteen colour numbers.\<close>

definition VGA_COLOR :: "u8 \<Rightarrow> u8 \<Rightarrow> u8" where
  "VGA_COLOR fg bg = push_bit 4 bg OR fg"

section \<open>Structures\<close>

text \<open>\<^verbatim>\<open>pmm_state\<close> of pmm.c; \<open>bitmap\<close> is a pointer.\<close>

record pmm_t =
  bitmap :: u32
  total_pages :: u32
  allocated_pages :: u32
  bitmap_size :: u32

text \<open>\<^verbatim>\<open>heap_state\<close> of heap.c.\<close>

record heap_t =
  heap_start :: u32
  heap_size :: u32
  heap_used :: u32

text \<open>\<^verbatim>\<open>vga_state\<close> of vga.c. The 16-bit cells from \<^verbatim>\<open>VGA_BUFFER\<close> on are indexed by the
  \<^verbatim>\<open>uint16_t\<close> index the code computes.\<close>

record vga_t =
  vga_buffer :: "u16 \<Rightarrow> u16"
  cursor_x :: u8
  cursor_y :: u8
  current_color :: u8

text \<open>\<^verbatim>\<open>kbd_state\<close> of kbd.c: a ring of \<^verbatim>\<open>KBD_BUFFER_SIZE\<close> characters.\<close>

record kbd_t =
  kbd_buffer :: "u8 list"
  kbd_head :: u16
  kbd_tail :: u16
  shift_pressed :: u8
  ctrl_pressed :: u8

datatype proc_state_t =
    PROC_STATE_READY
  | PROC_STATE_RUNNING
  | PROC_STATE_BLOCKED
  | PROC_STATE_ZOMBIE

text \<open>The process control block; \<open>context\<close> and \<open>blocked_on\<close> are pointers, 0 is \<^verbatim>\<open>NULL\<close>.\<close>

record pcb_t =
  pid :: u32
  parent_pid :: u32
  proc_state :: proc_state_t
  priority :: u32
  pcb_context :: u32
  page_dir_phys :: u32
  kernel_stack :: u32
  user_stack :: u32
  time_slice_remaining :: u32
  total_runtime :: u32
  wait_queue :: u32
  blocked_on :: u32

record gdt_entry_t =
  limit_low :: u16
  base_low :: u16
  base_mid :: u8
  gdt_access :: u8
  limit_high :: u8
  base_high :: u8

record idt_entry_t =
  offset_low :: u16
  selector :: u16
  idt_reserved :: u8
  idt_flags :: u8
  offset_high :: u16

text \<open>\<^verbatim>\<open>gdt_ptr_t\<close> and \<^verbatim>\<open>idt_ptr_t\<close>, the operands of \<^verbatim>\<open>lgdt\<close> and \<^verbatim>\<open>lidt\<close>.\<close>

record table_ptr_t =
  ptr_limit :: u16
  ptr_base :: u32

text \<open>The functions the kernel puts into \<^verbatim>\<open>interrupt_handlers\<close>, and any other by its address.\<close>

datatype interrupt_handler_t =
    Handler_null
  | Isr_default_handler
  | Isr_page_fault_handler
  | Scheduler_tick
  | Kbd_interrupt_handler
  | Handler_at u32

section \<open>The machine and the statics\<close>

record layout =
  kernel_page_directory :: u32
  kernel_page_tables :: u32
  gdt_addr :: u32
  idt_addr :: u32
  isr_stub :: "nat \<Rightarrow> u32"
  irq_stub :: "nat \<Rightarrow> u32"

record kernel =
  mem :: memory
  port_in :: "u16 \<Rightarrow> nat \<Rightarrow> u8"
  in_count :: "u16 \<Rightarrow> nat"
  port_out :: "(u16 \<times> u8) list"
  int_flag :: bool
  cr0 :: u32
  cr3 :: u32
  invlpg_log :: "u32 list"
  gdtr :: table_ptr_t
  idtr :: table_ptr_t
  seg_cs :: u16
  seg_data :: u16
  gdt :: "gdt_entry_t list"
  gdt_ptr :: table_ptr_t
  idt :: "idt_entry_t list"
  idt_ptr :: table_ptr_t
  interrupt_handlers :: "interrupt_handler_t list"
  vga_state :: vga_t
  pmm_state :: pmm_t
  heap_state :: heap_t
  kbd_state :: kbd_t
  process_table :: "pcb_t list"
  current_pid :: u32
  current_process :: "nat option"
  next_pid :: u32
  scheduler_ticks :: u32

section \<open>Static initial values\<close>

definition zero_pcb :: pcb_t where
  "zero_pcb = \<lparr>pid = 0, parent_pid = 0, proc_state = PROC_STATE_READY, priority = 0,
     pcb_context = 0, page_dir_phys = 0, kernel_stack = 0, user_stack = 0,
     time_slice_remaining = 0, total_runtime = 0, wait_queue = 0, blocked_on = 0\<rparr>"

definition zero_gdt_entry :: gdt_entry_t where
  "zero_gdt_entry = \<lparr>limit_low = 0, base_low = 0, base_mid = 0, gdt_access = 0,
     limit_high = 0, base_high = 0\<rparr>"

definition zero_idt_entry :: idt_entry_t where
  "zero_idt_entry = \<lparr>offset_low = 0, selector = 0, idt_reserved = 0, idt_flags = 0,
     offset_high = 0\<rparr>"

definition zero_table_ptr :: table_ptr_t where
  "zero_table_ptr = \<lparr>ptr_limit = 0, ptr_base = 0\<rparr>"

text \<open>The state at the entry of \<^verbatim>\<open>kmain\<close>, over a memory content, a screen content and an
  environment of port inputs. Paging is off and interrupts are disabled, as
  \<^verbatim>\<open>boot.asm\<close> leaves the processor.\<close>

definition boot_kernel ::
  "memory \<Rightarrow> (u16 \<Rightarrow> u16) \<Rightarrow> (u16 \<Rightarrow> nat \<Rightarrow> u8) \<Rightarrow> kernel" where
  "boot_kernel m screen env =
     \<lparr>mem = m, port_in = env, in_count = (\<lambda>_. 0), port_out = [],
      int_flag = False, cr0 = 1, cr3 = 0, invlpg_log = [],
      gdtr = zero_table_ptr, idtr = zero_table_ptr, seg_cs = 0, seg_data = 0,
      gdt = replicate 6 zero_gdt_entry, gdt_ptr = zero_table_ptr,
      idt = replicate 256 zero_idt_entry, idt_ptr = zero_table_ptr,
      interrupt_handlers = replicate 256 Handler_null,
      vga_state = \<lparr>vga_buffer = screen, cursor_x = 0, cursor_y = 0, current_color = 7\<rparr>,
      pmm_state = \<lparr>bitmap = 0, total_pages = 0, allocated_pages = 0, bitmap_size = 0\<rparr>,
      heap_state = \<lparr>heap_start = 0, heap_size = 0, heap_used = 0\<rparr>,
      kbd_state = \<lparr>kbd_buffer = replicate 256 0, kbd_head = 0, kbd_tail = 0,
        shift_pressed = 0, ctrl_pressed = 0\<rparr>,
      process_table = replicate 256 zero_pcb, current_pid = 0, current_process = None,
      next_pid = 1, scheduler_ticks = 0\<rparr>"

text \<open>How a function ends that may stop the machine: it returns, or it stays in an endless loop
  that changes nothing.\<close>

datatype outcome = Returned kernel | Stopped kernel

text \<open>How the whole machine can end: in such a loop, by a fault for which no handler is installed, or in
  behaviour C leaves undefined (a store behind a buffer, a call through a null pointer).\<close>

datatype machine_end = Halted kernel | Faulted kernel | Undefined

section \<open>Ports\<close>

text \<open>The \<^verbatim>\<open>out\<close> and \<^verbatim>\<open>in\<close> instructions of the inline assembly.\<close>

definition outb :: "u16 \<Rightarrow> u8 \<Rightarrow> kernel \<Rightarrow> kernel" where
  "outb p v k = k\<lparr>port_out := port_out k @ [(p, v)]\<rparr>"

definition inb :: "u16 \<Rightarrow> kernel \<Rightarrow> u8 \<times> kernel" where
  "inb p k = (port_in k p (in_count k p),
     k\<lparr>in_count := (in_count k)(p := Suc (in_count k p))\<rparr>)"

end
