(* ===== verification/Heap.thy ===== *)
theory Heap
  imports Kernel_State
begin

text \<open>
  The kernel heap, \<^verbatim>\<open>src/kernel/mm/heap.c\<close>. Blocks lie one after the other from
  \<open>heap_start\<close> on, each behind a 12-byte header in memory; \<open>heap_used\<close> is the length of the
  part that has been carved into blocks. \<^verbatim>\<open>kmalloc\<close> walks the headers first-fit and may not
  return when a header is damaged, so the walk is a partial function and \<^verbatim>\<open>kmalloc\<close> has an
  option result, \<open>None\<close> meaning that it does not return. The abstraction is the list of
  blocks (size and used flag); the lemmas show that the code on bytes does what first-fit
  does on that list, always returns, and leaves live blocks alone.
\<close>

section \<open>The code\<close>

definition ALLOC_MAGIC :: u32 where "ALLOC_MAGIC = 0xDEADBEEF"
definition MIN_ALLOC_SIZE :: u32 where "MIN_ALLOC_SIZE = 32"

text \<open>\<^verbatim>\<open>sizeof(alloc_header_t)\<close>: two words, one byte, padded to the alignment of a word.\<close>

definition HEADER_SIZE :: u32 where "HEADER_SIZE = 12"

definition hdr_magic :: "memory \<Rightarrow> u32 \<Rightarrow> u32" where "hdr_magic m a = load32 m a"
definition hdr_size :: "memory \<Rightarrow> u32 \<Rightarrow> u32" where "hdr_size m a = load32 m (a + 4)"
definition hdr_used :: "memory \<Rightarrow> u32 \<Rightarrow> u8" where "hdr_used m a = m (a + 8)"

definition heap_init :: "u32 \<Rightarrow> u32 \<Rightarrow> kernel \<Rightarrow> int \<times> kernel" where
  "heap_init start sz k =
     (1, k\<lparr>heap_state := \<lparr>heap_start = start, heap_size = sz, heap_used = 0\<rparr>\<rparr>)"

text \<open>The three ways out of the loop of \<^verbatim>\<open>kmalloc\<close>.\<close>

datatype heap_search = Corrupted | Found u32 | Reached_end u32

partial_function (option) heap_walk ::
  "u32 \<Rightarrow> kernel \<Rightarrow> u32 \<Rightarrow> u32 \<Rightarrow> heap_search option" where
  "heap_walk total_size k current offset =
     (if offset < heap_used (heap_state k)
      then if hdr_magic (mem k) current \<noteq> ALLOC_MAGIC then Some Corrupted
           else if hdr_used (mem k) current = 0 \<and> hdr_size (mem k) current \<ge> total_size
           then Some (Found current)
           else heap_walk total_size k (current + hdr_size (mem k) current)
                  (offset + hdr_size (mem k) current)
      else Some (Reached_end current))"

definition kmalloc_total :: "u32 \<Rightarrow> u32" where
  "kmalloc_total sz =
     (let total_size = HEADER_SIZE + sz in if total_size < MIN_ALLOC_SIZE then MIN_ALLOC_SIZE else total_size)"

definition kmalloc :: "u32 \<Rightarrow> kernel \<Rightarrow> (u32 \<times> kernel) option" where
  "kmalloc sz k =
     (if sz = 0 \<or> sz > heap_size (heap_state k) then Some (0, k)
      else
        let total_size = kmalloc_total sz
        in case heap_walk total_size k (heap_start (heap_state k)) 0 of
             None \<Rightarrow> None
           | Some Corrupted \<Rightarrow> Some (0, k)
           | Some (Found current) \<Rightarrow>
               Some (current + HEADER_SIZE, k\<lparr>mem := (mem k)(current + 8 := 1)\<rparr>)
           | Some (Reached_end current) \<Rightarrow>
               if heap_used (heap_state k) + total_size > heap_size (heap_state k) then Some (0, k)
               else
                 let m1 = store32 (mem k) current ALLOC_MAGIC;
                     m2 = store32 m1 (current + 4) total_size;
                     m3 = m2(current + 8 := 1)
                 in Some (current + HEADER_SIZE,
                      k\<lparr>mem := m3,
                        heap_state := (heap_state k)
                          \<lparr>heap_used := heap_used (heap_state k) + total_size\<rparr>\<rparr>))"

definition kfree :: "u32 \<Rightarrow> kernel \<Rightarrow> int \<times> kernel" where
  "kfree ptr k =
     (if ptr = 0 then (0, k)
      else let header = ptr - HEADER_SIZE
           in if hdr_magic (mem k) header \<noteq> ALLOC_MAGIC then (-1, k)
              else (0, k\<lparr>mem := (mem k)(header + 8 := 0)\<rparr>))"

text \<open>The two results are stored where the pointers say, unless they are null.\<close>

definition heap_get_stats :: "u32 \<Rightarrow> u32 \<Rightarrow> kernel \<Rightarrow> int \<times> kernel" where
  "heap_get_stats used tot k =
     (let k1 = (if used \<noteq> 0 then k\<lparr>mem := store32 (mem k) used (heap_used (heap_state k))\<rparr> else k);
          k2 = (if tot \<noteq> 0 then k1\<lparr>mem := store32 (mem k1) tot (heap_size (heap_state k1))\<rparr> else k1)
      in (0, k2))"

section \<open>Blocks in memory\<close>

text \<open>A block is its size, header included, and whether it is in use. \<open>blocks_at m base off bs\<close>:
  the headers of \<open>bs\<close> stand in \<open>m\<close> one after the other from offset \<open>off\<close> on.\<close>

type_synonym block = "nat \<times> bool"

fun blocks_at :: "memory \<Rightarrow> u32 \<Rightarrow> nat \<Rightarrow> block list \<Rightarrow> bool" where
  "blocks_at m base off [] = True"
| "blocks_at m base off ((s, u) # bs) =
     (hdr_magic m (base + of_nat off) = ALLOC_MAGIC
      \<and> hdr_size m (base + of_nat off) = of_nat s
      \<and> (hdr_used m (base + of_nat off) \<noteq> 0) = u
      \<and> 32 \<le> s
      \<and> blocks_at m base (off + s) bs)"

abbreviation extent :: "block list \<Rightarrow> nat" where
  "extent bs \<equiv> sum_list (map fst bs)"

text \<open>The offsets at which blocks start, with the blocks.\<close>

fun placed :: "nat \<Rightarrow> block list \<Rightarrow> (nat \<times> block) list" where
  "placed off [] = []"
| "placed off ((s, u) # bs) = (off, s, u) # placed (off + s) bs"

text \<open>First-fit on the list, and setting the flag of the block at an offset.\<close>

fun first_fit :: "nat \<Rightarrow> nat \<Rightarrow> block list \<Rightarrow> nat option" where
  "first_fit t off [] = None"
| "first_fit t off ((s, u) # bs) =
     (if \<not> u \<and> t \<le> s then Some off else first_fit t (off + s) bs)"

fun set_flag :: "bool \<Rightarrow> nat \<Rightarrow> nat \<Rightarrow> block list \<Rightarrow> block list" where
  "set_flag v tgt off [] = []"
| "set_flag v tgt off ((s, u) # bs) =
     (s, if off = tgt then v else u) # set_flag v tgt (off + s) bs"

lemma blocks_at_append:
  "blocks_at m base off (bs @ cs) \<longleftrightarrow>
     blocks_at m base off bs \<and> blocks_at m base (off + extent bs) cs"
  by (induction bs arbitrary: off) (auto simp: add.assoc)

lemma set_flag_extent [simp]: "map fst (set_flag v tgt off bs) = map fst bs"
  by (induction v tgt off bs rule: set_flag.induct) auto

lemma placed_bounds:
  "(o', s, u) \<in> set (placed off bs) \<Longrightarrow> off \<le> o' \<and> o' + s \<le> off + extent bs"
  by (induction off bs rule: placed.induct) auto

lemma first_fit_placed:
  "first_fit t off bs = Some o' \<Longrightarrow> \<exists>s. (o', s, False) \<in> set (placed off bs) \<and> t \<le> s"
  by (induction t off bs rule: first_fit.induct) (auto split: if_splits)

text \<open>Blocks at different offsets do not overlap.\<close>

lemma blocks_at_min: "blocks_at m base off bs \<Longrightarrow> (s, u) \<in> set bs \<Longrightarrow> 32 \<le> s"
  by (induction m base off bs rule: blocks_at.induct) auto

lemma placed_disjoint:
  assumes "(o1, s1, u1) \<in> set (placed off bs)" "(o2, s2, u2) \<in> set (placed off bs)" "o1 < o2"
  shows "o1 + s1 \<le> o2"
  using assms
proof (induction off bs rule: placed.induct)
  case (2 off s u bs)
  then show ?case by (auto dest: placed_bounds)
qed simp

text \<open>The headers are inside the extent, so memory that agrees there holds the same blocks.\<close>

lemma hdr_cong:
  assumes "\<forall>i<12. m (base + of_nat (off + i)) = m' (base + of_nat (off + i))"
  shows "hdr_magic m (base + of_nat off) = hdr_magic m' (base + of_nat off)"
    and "hdr_size m (base + of_nat off) = hdr_size m' (base + of_nat off)"
    and "hdr_used m (base + of_nat off) = hdr_used m' (base + of_nat off)"
  using assms [THEN spec, of 0] assms [THEN spec, of 1] assms [THEN spec, of 2]
    assms [THEN spec, of 3] assms [THEN spec, of 4] assms [THEN spec, of 5]
    assms [THEN spec, of 6] assms [THEN spec, of 7] assms [THEN spec, of 8]
  by (simp_all add: hdr_magic_def hdr_size_def hdr_used_def load32_def ac_simps)

lemma blocks_at_cong:
  assumes "\<And>i. off \<le> i \<Longrightarrow> i < off + extent bs \<Longrightarrow> m (base + of_nat i) = m' (base + of_nat i)"
    and "blocks_at m base off bs"
  shows "blocks_at m' base off bs"
  using assms
proof (induction m base off bs rule: blocks_at.induct)
  case (2 m base off s u bs)
  have "\<forall>i<12. m (base + of_nat (off + i)) = m' (base + of_nat (off + i))"
    using 2 by (auto simp del: of_nat_add)
  from hdr_cong [OF this] 2 show ?case by auto
qed simp

lemma heap_addr_eq_iff:
  "i < 4294967296 \<Longrightarrow> j < 4294967296 \<Longrightarrow>
     (base :: u32) + of_nat i = base + of_nat j \<longleftrightarrow> i = j"
  by (simp add: of_nat_u32_eq_iff)

lemma set_flag_before: "tgt < off \<Longrightarrow> blocks_at m base off bs \<Longrightarrow> set_flag v tgt off bs = bs"
  by (induction m base off bs rule: blocks_at.induct) auto

text \<open>A byte outside the extent can be written freely, and a header only occupies 12 bytes.\<close>

lemma blocks_at_upd_out:
  assumes "blocks_at m base off bs" and "off + extent bs \<le> 4294967296" and "j < 4294967296"
    and "j < off \<or> off + extent bs \<le> j"
  shows "blocks_at (m(base + of_nat j := v)) base off bs"
proof (rule blocks_at_cong [OF _ assms(1)])
  fix i
  assume i: "off \<le> i" "i < off + extent bs"
  then have "(base + of_nat i :: u32) \<noteq> base + of_nat j"
    using assms(2-4) heap_addr_eq_iff [of i j base] by auto
  then show "m (base + of_nat i) = (m(base + of_nat j := v)) (base + of_nat i)" by simp
qed

lemma hdr_upd_out:
  assumes "off + 12 \<le> 4294967296" and "j < 4294967296" and "j < off \<or> off + 12 \<le> j"
  shows "hdr_magic (m(base + of_nat j := v)) (base + of_nat off) = hdr_magic m (base + of_nat off)"
    and "hdr_size (m(base + of_nat j := v)) (base + of_nat off) = hdr_size m (base + of_nat off)"
    and "hdr_used (m(base + of_nat j := v)) (base + of_nat off) = hdr_used m (base + of_nat off)"
proof -
  have "(m(base + of_nat j := v)) (base + of_nat (off + i)) = m (base + of_nat (off + i))"
    if "i < 12" for i
    using assms that heap_addr_eq_iff [of "off + i" j base] by (auto simp del: of_nat_add)
  then have "\<forall>i<12. (m(base + of_nat j := v)) (base + of_nat (off + i)) = m (base + of_nat (off + i))"
    by blast
  note eq = hdr_cong [where m = "m(base + of_nat j := v)" and m' = m, OF this]
  show "hdr_magic (m(base + of_nat j := v)) (base + of_nat off) = hdr_magic m (base + of_nat off)"
    by (rule eq(1))
  show "hdr_size (m(base + of_nat j := v)) (base + of_nat off) = hdr_size m (base + of_nat off)"
    by (rule eq(2))
  show "hdr_used (m(base + of_nat j := v)) (base + of_nat off) = hdr_used m (base + of_nat off)"
    by (rule eq(3))
qed

lemma hdr_upd_flag:
  "hdr_magic (m(base + of_nat (off + 8) := v)) (base + of_nat off) = hdr_magic m (base + of_nat off)"
  "hdr_size (m(base + of_nat (off + 8) := v)) (base + of_nat off) = hdr_size m (base + of_nat off)"
  "hdr_used (m(base + of_nat (off + 8) := v)) (base + of_nat off) = v"
  by (simp_all add: hdr_magic_def hdr_size_def hdr_used_def load32_upd_other add.assoc)

lemma placed_min:
  "blocks_at m base off bs \<Longrightarrow> (i, s, u) \<in> set (placed off bs) \<Longrightarrow> 32 \<le> s"
  by (induction m base off bs rule: blocks_at.induct) auto

text \<open>Writing the flag byte of a block sets its flag in the list.\<close>

lemma blocks_at_set_flag:
  assumes "blocks_at m base off bs" and "(tgt, s', u') \<in> set (placed off bs)"
    and "off + extent bs \<le> 4294967296"
  shows "blocks_at (m(base + of_nat (tgt + 8) := v)) base off (set_flag (v \<noteq> 0) tgt off bs)"
  using assms
proof (induction m base off bs rule: blocks_at.induct)
  case (2 m base off s u bs)
  let ?m = "m(base + of_nat (tgt + 8) := v)"
  have s: "32 \<le> s" "off + s \<le> 4294967296" and rest: "blocks_at m base (off + s) bs"
    using 2 by auto
  show ?case
  proof (cases "tgt = off")
    case True
    have "blocks_at ?m base (off + s) bs"
      by (rule blocks_at_upd_out [OF rest]) (use 2 True s in auto)
    moreover have "set_flag (v \<noteq> 0) tgt (off + s) bs = bs"
      by (rule set_flag_before [OF _ rest]) (use True s in auto)
    ultimately show ?thesis
      using 2 True by (simp add: hdr_upd_flag del: of_nat_add fun_upd_apply)
  next
    case False
    with 2 have tail: "(tgt, s', u') \<in> set (placed (off + s) bs)" by simp
    from placed_bounds [OF this] placed_min [OF rest this]
    have tgt: "off + s \<le> tgt" "tgt + 32 \<le> off + s + extent bs" by auto
    have "blocks_at ?m base (off + s) (set_flag (v \<noteq> 0) tgt (off + s) bs)"
      using 2 tail by (auto simp del: fun_upd_apply)
    then show ?thesis
      using 2 False tgt s
      by (simp add: hdr_upd_out [of off "tgt + 8"] del: of_nat_add fun_upd_apply)
  qed
qed simp

section \<open>The invariant\<close>

definition heap_inv :: "kernel \<Rightarrow> block list \<Rightarrow> bool" where
  "heap_inv k bs \<longleftrightarrow>
     blocks_at (mem k) (heap_start (heap_state k)) 0 bs
     \<and> extent bs = unat (heap_used (heap_state k))
     \<and> extent bs \<le> unat (heap_size (heap_state k))
     \<and> unat (heap_start (heap_state k)) + unat (heap_size (heap_state k)) \<le> 4294967296
     \<and> unat (heap_size (heap_state k)) \<le> 0x7FFFFFF0"

lemma heap_walk_first_fit:
  assumes "blocks_at (mem k) base off bs" and "t < 4294967296"
    and "off + extent bs = unat (heap_used (heap_state k))"
  shows "heap_walk (of_nat t) k (base + of_nat off) (of_nat off) =
     Some (case first_fit t off bs of Some i \<Rightarrow> Found (base + of_nat i)
           | None \<Rightarrow> Reached_end (base + of_nat (off + extent bs)))"
  using assms
proof (induction t off bs rule: first_fit.induct)
  case (1 t off)
  then show ?case by (subst heap_walk.simps) (simp add: word_less_nat_alt)
next
  case (2 t off s u bs)
  have bound: "off + s \<le> unat (heap_used (heap_state k))" using 2 by simp
  then have lt: "off + s < 4294967296" using le_less_trans [OF _ unat_less_2p32] by blast
  have inside: "of_nat off < heap_used (heap_state k)"
    using 2 bound lt by (simp add: word_less_nat_alt)
  have fits: "of_nat t \<le> (of_nat s :: u32) \<longleftrightarrow> t \<le> s"
    using lt 2 by (simp add: word_le_nat_alt)
  show ?case
  proof (cases "\<not> u \<and> t \<le> s")
    case True
    then show ?thesis using 2 inside fits by (subst heap_walk.simps) simp
  next
    case False
    then show ?thesis using 2 inside fits
      by (subst heap_walk.simps) (auto simp: add.assoc split: option.split)
  qed
qed

text \<open>A new header behind the last block.\<close>

definition new_header :: "memory \<Rightarrow> u32 \<Rightarrow> u32 \<Rightarrow> memory" where
  "new_header m a sz = (store32 (store32 m a ALLOC_MAGIC) (a + 4) sz)(a + 8 := 1)"

lemma new_header_fields:
  "hdr_magic (new_header m a sz) a = ALLOC_MAGIC"
  "hdr_size (new_header m a sz) a = sz"
  "hdr_used (new_header m a sz) a = 1"
  by (simp_all add: new_header_def hdr_magic_def hdr_size_def hdr_used_def
      load32_upd_other load32_store32_apart cells_apart_def)

lemma new_header_other:
  assumes "\<not> x - a < 12"
  shows "new_header m a sz x = m x"
proof -
  have "\<not> x - a < 4" "\<not> x - (a + 4) < 4" "x \<noteq> a + 8" using assms by unat_arith+
  then show ?thesis by (simp add: new_header_def store32_other)
qed

lemma offset_diff:
  assumes "i < 4294967296" "j < 4294967296" "i < j"
  shows "unat ((base + of_nat j :: u32) - (base + of_nat i)) = j - i"
    and "unat ((base + of_nat i :: u32) - (base + of_nat j)) = 4294967296 - (j - i)"
proof -
  have "unat (of_nat i :: u32) = i" "unat (of_nat j :: u32) = j" using assms by simp_all
  then show "unat ((base + of_nat j :: u32) - (base + of_nat i)) = j - i"
    and "unat ((base + of_nat i :: u32) - (base + of_nat j)) = 4294967296 - (j - i)"
    unfolding add_diff_cancel_left unat_sub_if_size
    using assms by (simp_all add: word_size)
qed

lemma blocks_at_new_header:
  assumes "blocks_at m base 0 bs" and "extent bs + 32 \<le> 4294967296" and "32 \<le> t"
  shows "blocks_at (new_header m (base + of_nat (extent bs)) (of_nat t)) base 0 (bs @ [(t, True)])"
proof -
  let ?m = "new_header m (base + of_nat (extent bs)) (of_nat t)"
  have "blocks_at ?m base 0 bs"
  proof (rule blocks_at_cong [OF _ assms(1)])
    fix i
    assume "i < 0 + extent bs"
    then have "\<not> unat ((base + of_nat i :: u32) - (base + of_nat (extent bs))) < 12"
      using assms(2) by (subst offset_diff(2)) auto
    then show "m (base + of_nat i) = ?m (base + of_nat i)"
      by (simp add: new_header_other word_less_nat_alt)
  qed
  then show ?thesis
    using assms(3) by (simp add: blocks_at_append new_header_fields)
qed

section \<open>What the operations do to the list of blocks\<close>

definition kmalloc_spec :: "nat \<Rightarrow> nat \<Rightarrow> block list \<Rightarrow> (nat \<times> block list) option" where
  "kmalloc_spec cap sz bs =
     (if sz = 0 \<or> cap < sz then None
      else let t = max 32 (12 + sz)
           in case first_fit t 0 bs of
                Some i \<Rightarrow> Some (i, set_flag True i 0 bs)
              | None \<Rightarrow> if extent bs + t \<le> cap then Some (extent bs, bs @ [(t, True)]) else None)"

lemma kmalloc_total_nat:
  assumes "unat sz \<le> 0x7FFFFFF0"
  shows "kmalloc_total sz = of_nat (max 32 (12 + unat sz))"
    and "unat (kmalloc_total sz) = max 32 (12 + unat sz)"
proof -
  have 12: "unat (12 + sz) = 12 + unat sz" using assms by (simp add: unat_word_ariths)
  then show n: "unat (kmalloc_total sz) = max 32 (12 + unat sz)"
    by (simp add: kmalloc_total_def HEADER_SIZE_def MIN_ALLOC_SIZE_def Let_def word_less_nat_alt)
  from n [symmetric] show "kmalloc_total sz = of_nat (max 32 (12 + unat sz))" by simp
qed

lemma kmalloc_reuses:
  assumes inv: "heap_inv k bs" and sz: "sz \<noteq> 0" "unat sz \<le> unat (heap_size (heap_state k))"
    and fit: "first_fit (max 32 (12 + unat sz)) 0 bs = Some i"
  shows "kmalloc sz k = Some (heap_start (heap_state k) + of_nat (i + 12),
      k\<lparr>mem := (mem k)(heap_start (heap_state k) + of_nat (i + 8) := 1)\<rparr>)"
    and "heap_inv (k\<lparr>mem := (mem k)(heap_start (heap_state k) + of_nat (i + 8) := 1)\<rparr>)
      (set_flag True i 0 bs)"
proof -
  have b: "unat sz \<le> 0x7FFFFFF0" using sz inv by (simp add: heap_inv_def)
  have "heap_walk (kmalloc_total sz) k (heap_start (heap_state k)) 0 =
      Some (Found (heap_start (heap_state k) + of_nat i))"
    using heap_walk_first_fit [of k "heap_start (heap_state k)" 0 bs "max 32 (12 + unat sz)"]
      inv b fit by (simp add: kmalloc_total_nat heap_inv_def)
  then show "kmalloc sz k = Some (heap_start (heap_state k) + of_nat (i + 12),
      k\<lparr>mem := (mem k)(heap_start (heap_state k) + of_nat (i + 8) := 1)\<rparr>)"
    using sz by (simp add: kmalloc_def Let_def HEADER_SIZE_def word_less_nat_alt not_less ac_simps)
  obtain s where "(i, s, False) \<in> set (placed 0 bs)" using first_fit_placed [OF fit] by auto
  from blocks_at_set_flag [OF _ this, of "mem k" "heap_start (heap_state k)" 1]
  show "heap_inv (k\<lparr>mem := (mem k)(heap_start (heap_state k) + of_nat (i + 8) := 1)\<rparr>)
      (set_flag True i 0 bs)"
    using inv by (simp add: heap_inv_def del: of_nat_add fun_upd_apply)
qed

lemma kmalloc_extends:
  assumes inv: "heap_inv k bs" and sz: "sz \<noteq> 0" "unat sz \<le> unat (heap_size (heap_state k))"
    and nofit: "first_fit (max 32 (12 + unat sz)) 0 bs = None"
  defines "t \<equiv> max 32 (12 + unat sz)"
  defines "k' \<equiv> k\<lparr>mem := new_header (mem k) (heap_start (heap_state k) + of_nat (extent bs)) (of_nat t),
      heap_state := (heap_state k)\<lparr>heap_used := heap_used (heap_state k) + of_nat t\<rparr>\<rparr>"
  shows "kmalloc sz k = (if extent bs + t \<le> unat (heap_size (heap_state k))
      then Some (heap_start (heap_state k) + of_nat (extent bs + 12), k') else Some (0, k))"
    and "extent bs + t \<le> unat (heap_size (heap_state k)) \<Longrightarrow> heap_inv k' (bs @ [(t, True)])"
proof -
  have b: "unat sz \<le> 0x7FFFFFF0" using sz inv by (simp add: heap_inv_def)
  have "extent bs + t < 4294967296" "t < 4294967296"
    using inv b by (auto simp: heap_inv_def t_def max_def)
  then have used: "unat (heap_used (heap_state k) + of_nat t) = extent bs + t"
    using inv by (simp add: heap_inv_def unat_word_ariths)
  have walk: "heap_walk (kmalloc_total sz) k (heap_start (heap_state k)) 0 =
      Some (Reached_end (heap_start (heap_state k) + of_nat (extent bs)))"
    using heap_walk_first_fit [of k "heap_start (heap_state k)" 0 bs "max 32 (12 + unat sz)"]
      inv b nofit by (simp add: kmalloc_total_nat heap_inv_def)
  have tot: "kmalloc_total sz = of_nat t" using b by (simp add: kmalloc_total_nat t_def)
  show "kmalloc sz k = (if extent bs + t \<le> unat (heap_size (heap_state k))
      then Some (heap_start (heap_state k) + of_nat (extent bs + 12), k') else Some (0, k))"
    using sz walk used unfolding kmalloc_def Let_def tot
    by (simp add: HEADER_SIZE_def word_less_nat_alt not_less k'_def new_header_def ac_simps)
  assume "extent bs + t \<le> unat (heap_size (heap_state k))"
  then show "heap_inv k' (bs @ [(t, True)])"
    using inv used blocks_at_new_header [of "mem k" "heap_start (heap_state k)" bs t]
    by (simp add: heap_inv_def k'_def t_def)
qed

section \<open>Reading the blocks back\<close>

text \<open>The list of blocks is determined by the memory: it can be read off the headers. The
  counter \<open>n\<close> bounds the number of blocks; \<open>heap_used\<close> is enough, as no block is empty.\<close>

fun parse_blocks :: "nat \<Rightarrow> memory \<Rightarrow> u32 \<Rightarrow> nat \<Rightarrow> nat \<Rightarrow> block list" where
  "parse_blocks 0 m base off lim = []"
| "parse_blocks (Suc n) m base off lim =
     (if off < lim
      then let s = unat (hdr_size m (base + of_nat off)); u = hdr_used m (base + of_nat off) \<noteq> 0
           in (s, u) # parse_blocks n m base (off + s) lim
      else [])"

definition heap_blocks :: "kernel \<Rightarrow> block list" where
  "heap_blocks k = parse_blocks (unat (heap_used (heap_state k))) (mem k)
     (heap_start (heap_state k)) 0 (unat (heap_used (heap_state k)))"

definition heap_ok :: "kernel \<Rightarrow> bool" where
  "heap_ok k \<longleftrightarrow> heap_inv k (heap_blocks k)"

lemma parse_blocks_at:
  "blocks_at m base off bs \<Longrightarrow> off + extent bs = lim \<Longrightarrow> lim < 4294967296 \<Longrightarrow> extent bs \<le> n \<Longrightarrow>
     parse_blocks n m base off lim = bs"
proof (induction m base off bs arbitrary: n rule: blocks_at.induct)
  case (1 m base off)
  then show ?case by (cases n) auto
next
  case (2 m base off s u bs)
  then obtain n' where n: "n = Suc n'" by (cases n) auto
  then have "parse_blocks n' m base (off + s) lim = bs" using 2 by auto
  then show ?case using 2 n by (auto simp: Let_def)
qed

lemma heap_blocks_eq:
  assumes "heap_inv k bs"
  shows "heap_blocks k = bs"
proof -
  have "unat (heap_used (heap_state k)) < 4294967296" by simp
  then show ?thesis
    using assms unfolding heap_blocks_def heap_inv_def by (intro parse_blocks_at) auto
qed

lemma heap_okI: "heap_inv k bs \<Longrightarrow> heap_ok k"
  using heap_blocks_eq by (simp add: heap_ok_def)

lemma heap_inv_iff: "heap_inv k bs \<longleftrightarrow> heap_ok k \<and> heap_blocks k = bs"
  using heap_blocks_eq by (auto simp: heap_ok_def)

section \<open>Live blocks\<close>

lemma placed_set_flag:
  "(i, s, u) \<in> set (placed off (set_flag v tgt off bs)) \<longleftrightarrow>
     (\<exists>u0. (i, s, u0) \<in> set (placed off bs) \<and> u = (if i = tgt then v else u0))"
  by (induction v tgt off bs rule: set_flag.induct) (auto split: if_splits)

lemma placed_set_flag_used:
  assumes "(i, s, u0) \<in> set (placed off bs)"
    and "\<forall>l u. (i, l, u) \<in> set (placed off bs) \<longrightarrow> l = s"
  shows "(j, l, True) \<in> set (placed off (set_flag v i off bs)) \<longleftrightarrow>
     (if j = i then l = s \<and> v else (j, l, True) \<in> set (placed off bs))"
proof (cases "j = i")
  case True
  have "(\<exists>u. (i, l, u) \<in> set (placed off bs)) \<longleftrightarrow> l = s" using assms by blast
  then show ?thesis using True by (simp add: placed_set_flag)
next
  case False
  then show ?thesis by (auto simp: placed_set_flag)
qed

lemma placed_append:
  "placed off (bs @ cs) = placed off bs @ placed (off + extent bs) cs"
  by (induction off bs rule: placed.induct) (auto simp: add.assoc)

lemma placed_functional:
  assumes "blocks_at m base off bs" "(i, s, u) \<in> set (placed off bs)" "(i, s', u') \<in> set (placed off bs)"
  shows "s = s' \<and> u = u'"
  using assms
proof (induction m base off bs rule: blocks_at.induct)
  case (2 m base off s0 u0 bs)
  have "\<forall>s u. (off, s, u) \<notin> set (placed (off + s0) bs)"
    using placed_bounds [of off _ _ "off + s0" bs] 2 by fastforce
  then show ?case using 2 by auto
qed simp

text \<open>The blocks in use (offset and size), and their payloads (address and length).
  \<open>regions_apart\<close>: no address in common.\<close>

definition used_blocks :: "block list \<Rightarrow> (nat \<times> nat) set" where
  "used_blocks bs = (\<lambda>(i, s, u). (i, s)) ` set (filter (\<lambda>(i, s, u). u) (placed 0 bs))"

definition payload :: "u32 \<Rightarrow> nat \<times> nat \<Rightarrow> u32 \<times> nat" where
  "payload base b = (base + of_nat (fst b + 12), snd b - 12)"

definition heap_live :: "kernel \<Rightarrow> (u32 \<times> nat) set" where
  "heap_live k = payload (heap_start (heap_state k)) ` used_blocks (heap_blocks k)"

lemma in_used_blocks: "(i, s) \<in> used_blocks bs \<longleftrightarrow> (i, s, True) \<in> set (placed 0 bs)"
  by (force simp: used_blocks_def)

lemma fst_used_blocks: "i \<in> fst ` used_blocks bs \<longleftrightarrow> (\<exists>s. (i, s, True) \<in> set (placed 0 bs))"
  by (force simp: used_blocks_def)

lemma used_blocks_set_flag:
  assumes "(i, s, u0) \<in> set (placed 0 bs)" and "\<forall>l u. (i, l, u) \<in> set (placed 0 bs) \<longrightarrow> l = s"
  shows "used_blocks (set_flag v i 0 bs) =
     (if v then insert (i, s) (used_blocks bs) else used_blocks bs - {(i, s)})"
proof -
  have "(j, l) \<in> used_blocks (set_flag v i 0 bs) \<longleftrightarrow>
      (if j = i then l = s \<and> v else (j, l) \<in> used_blocks bs)" for j l
    using placed_set_flag_used [OF assms] by (simp add: in_used_blocks)
  moreover have "(i, l) \<in> used_blocks bs \<longrightarrow> l = s" for l
    using assms(2) in_used_blocks by blast
  ultimately show ?thesis by (cases v) (auto split: if_splits)
qed

lemma used_blocks_append: "used_blocks (bs @ [(t, True)]) = insert (extent bs, t) (used_blocks bs)"
  by (auto simp: in_used_blocks placed_append)

definition regions_apart :: "u32 \<times> nat \<Rightarrow> u32 \<times> nat \<Rightarrow> bool" where
  "regions_apart r q \<longleftrightarrow>
     (\<forall>i < snd r. \<forall>j < snd q. fst r + of_nat i \<noteq> fst q + of_nat j)"

lemma regions_apart_offsets:
  assumes "i + s \<le> j" "j + s' \<le> 4294967296" "12 \<le> s" "12 \<le> s'"
  shows "regions_apart (base + of_nat (i + 12), s - 12) (base + of_nat (j + 12), s' - 12)"
    and "regions_apart (base + of_nat (j + 12), s' - 12) (base + of_nat (i + 12), s - 12)"
proof -
  have "base + of_nat (i + 12) + of_nat a \<noteq> base + of_nat (j + 12) + (of_nat b :: u32)"
    if "a < s - 12" "b < s' - 12" for a b
  proof -
    have "base + of_nat (i + 12 + a) \<noteq> base + (of_nat (j + 12 + b) :: u32)"
      using heap_addr_eq_iff [of "i + 12 + a" "j + 12 + b" base] assms that by simp
    then show ?thesis by (simp add: add.assoc)
  qed
  then show "regions_apart (base + of_nat (i + 12), s - 12) (base + of_nat (j + 12), s' - 12)"
    and "regions_apart (base + of_nat (j + 12), s' - 12) (base + of_nat (i + 12), s - 12)"
    by (auto simp: regions_apart_def simp del: of_nat_add) metis
qed

lemma placed_apart:
  assumes "blocks_at m base 0 bs" "extent bs \<le> 4294967296" "i \<noteq> j"
    "(i, s, u) \<in> set (placed 0 bs)" "(j, s', u') \<in> set (placed 0 bs)"
  shows "regions_apart (base + of_nat (i + 12), s - 12) (base + of_nat (j + 12), s' - 12)"
proof -
  note b = placed_bounds [OF assms(4)] placed_bounds [OF assms(5)]
    placed_min [OF assms(1,4)] placed_min [OF assms(1,5)]
  show ?thesis
  proof (cases "i < j")
    case True
    from placed_disjoint [OF assms(4,5) this] b assms(2) show ?thesis
      by (intro regions_apart_offsets(1)) auto
  next
    case False
    then have "j < i" using assms(3) by simp
    from placed_disjoint [OF assms(5,4) this] b assms(2) show ?thesis
      by (intro regions_apart_offsets(2)) auto
  qed
qed

text \<open>A block of size \<open>s\<close> at offset \<open>i\<close> that was not in use, or not there, is in use
  afterwards, and only its header has been written.\<close>

definition block_taken :: "kernel \<Rightarrow> nat \<Rightarrow> nat \<Rightarrow> kernel \<Rightarrow> bool" where
  "block_taken k i s k' \<longleftrightarrow>
     heap_ok k' \<and> 32 \<le> s \<and> i + s \<le> unat (heap_size (heap_state k))
     \<and> heap_start (heap_state k') = heap_start (heap_state k)
     \<and> heap_size (heap_state k') = heap_size (heap_state k)
     \<and> used_blocks (heap_blocks k') = insert (i, s) (used_blocks (heap_blocks k))
     \<and> i \<notin> fst ` used_blocks (heap_blocks k)
     \<and> (\<forall>x. \<not> x - (heap_start (heap_state k) + of_nat i) < 12 \<longrightarrow> mem k' x = mem k x)"

lemma flag_byte_only:
  assumes "\<not> x - (b + of_nat i :: u32) < 12"
  shows "x \<noteq> b + of_nat (i + 8)"
proof
  assume "x = b + of_nat (i + 8)"
  then have "x - (b + of_nat i) = 8" by simp
  then show False using assms by simp
qed

lemma reuse_taken:
  assumes inv: "heap_inv k bs" and s: "(i, s, False) \<in> set (placed 0 bs)"
    and inv': "heap_inv (k\<lparr>mem := (mem k)(heap_start (heap_state k) + of_nat (i + 8) := 1)\<rparr>)
      (set_flag True i 0 bs)" (is "heap_inv ?k _")
  shows "block_taken k i s ?k"
proof -
  have blocks: "heap_blocks k = bs" "heap_blocks ?k = set_flag True i 0 bs"
    using heap_blocks_eq [OF inv] heap_blocks_eq [OF inv'] by auto
  have bs: "blocks_at (mem k) (heap_start (heap_state k)) 0 bs"
    using inv by (simp add: heap_inv_def)
  have uniq: "\<forall>l u. (i, l, u) \<in> set (placed 0 bs) \<longrightarrow> l = s \<and> \<not> u"
    using placed_functional [OF bs s] by blast
  have "32 \<le> s" "i + s \<le> unat (heap_size (heap_state k))"
    using placed_min [OF bs s] placed_bounds [OF s] inv by (auto simp: heap_inv_def)
  moreover have "i \<notin> fst ` used_blocks bs" unfolding fst_used_blocks using uniq by blast
  moreover have "used_blocks (set_flag True i 0 bs) = insert (i, s) (used_blocks bs)"
    using used_blocks_set_flag [OF s, of True] uniq by simp
  ultimately show ?thesis
    unfolding block_taken_def blocks using heap_okI [OF inv'] flag_byte_only
    by (simp del: of_nat_add)
qed

lemma extend_taken:
  assumes inv: "heap_inv k bs" and t: "32 \<le> t" "extent bs + t \<le> unat (heap_size (heap_state k))"
    and inv': "heap_inv (k\<lparr>mem := new_header (mem k) (heap_start (heap_state k) + of_nat (extent bs)) (of_nat t),
        heap_state := (heap_state k)\<lparr>heap_used := u\<rparr>\<rparr>) (bs @ [(t, True)])" (is "heap_inv ?k _")
  shows "block_taken k (extent bs) t ?k"
proof -
  have blocks: "heap_blocks k = bs" "heap_blocks ?k = bs @ [(t, True)]"
    using heap_blocks_eq [OF inv] heap_blocks_eq [OF inv'] by auto
  have bs: "blocks_at (mem k) (heap_start (heap_state k)) 0 bs"
    using inv by (simp add: heap_inv_def)
  have "j \<noteq> extent bs" if "(j, l, True) \<in> set (placed 0 bs)" for j l
    using placed_bounds [OF that] placed_min [OF bs that] by auto
  then have "extent bs \<notin> fst ` used_blocks bs" unfolding fst_used_blocks by blast
  then show ?thesis
    unfolding block_taken_def blocks used_blocks_append
    using heap_okI [OF inv'] t by (simp add: new_header_other)
qed

lemma kmalloc_cases:
  assumes "heap_ok k"
  obtains (fail) "kmalloc sz k = Some (0, k)"
  | (ok) i s k' where "block_taken k i s k'" "12 + unat sz \<le> s"
      "kmalloc sz k = Some (heap_start (heap_state k) + of_nat (i + 12), k')"
proof -
  let ?bs = "heap_blocks k" and ?t = "max 32 (12 + unat sz)"
  have inv: "heap_inv k ?bs" using assms by (simp add: heap_ok_def)
  consider "sz = 0 \<or> unat (heap_size (heap_state k)) < unat sz"
    | (fit) i where "sz \<noteq> 0" "unat sz \<le> unat (heap_size (heap_state k))" "first_fit ?t 0 ?bs = Some i"
    | (nofit) "sz \<noteq> 0" "unat sz \<le> unat (heap_size (heap_state k))" "first_fit ?t 0 ?bs = None"
    by (metis linorder_not_less not_None_eq)
  then show ?thesis
  proof cases
    case 1
    then have "kmalloc sz k = Some (0, k)" by (auto simp: kmalloc_def word_less_nat_alt)
    then show ?thesis by (rule fail)
  next
    case (fit i)
    note r = kmalloc_reuses [OF inv fit]
    obtain s where s: "(i, s, False) \<in> set (placed 0 ?bs)" "?t \<le> s"
      using first_fit_placed [OF fit(3)] by auto
    show ?thesis by (rule ok [OF reuse_taken [OF inv s(1) r(2)] _ r(1)]) (use s(2) in simp)
  next
    case nofit
    note r = kmalloc_extends [OF inv nofit]
    show ?thesis
    proof (cases "extent ?bs + ?t \<le> unat (heap_size (heap_state k))")
      case True
      show ?thesis
        by (rule ok [OF extend_taken [OF inv _ True r(2) [OF True]]]) (use True r(1) in auto)
    next
      case False
      then have "kmalloc sz k = Some (0, k)" by (simp add: r(1))
      then show ?thesis by (rule fail)
    qed
  qed
qed

lemma placed_magic:
  "blocks_at m base off bs \<Longrightarrow> (i, s, u) \<in> set (placed off bs) \<Longrightarrow>
     hdr_magic m (base + of_nat i) = ALLOC_MAGIC"
  by (induction m base off bs rule: blocks_at.induct) auto

lemma payload_nonzero:
  assumes "heap_inv k bs" and "i + 32 \<le> unat (heap_size (heap_state k))"
  shows "heap_start (heap_state k) + of_nat (i + 12) \<noteq> 0"
proof -
  let ?b = "heap_start (heap_state k)"
  have "unat ?b + (i + 12) < 4294967296" using assms by (simp add: heap_inv_def)
  then have "unat (?b + of_nat (i + 12)) = unat ?b + (i + 12)"
    by (simp add: unat_word_ariths del: of_nat_add)
  then show ?thesis by auto
qed

lemma kfree_block:
  assumes inv: "heap_inv k bs" and i: "(i, s, u) \<in> set (placed 0 bs)"
  shows "kfree (heap_start (heap_state k) + of_nat (i + 12)) k =
      (0, k\<lparr>mem := (mem k)(heap_start (heap_state k) + of_nat (i + 8) := 0)\<rparr>)"
    and "heap_inv (k\<lparr>mem := (mem k)(heap_start (heap_state k) + of_nat (i + 8) := 0)\<rparr>)
      (set_flag False i 0 bs)"
proof -
  have bs: "blocks_at (mem k) (heap_start (heap_state k)) 0 bs"
    using inv by (simp add: heap_inv_def)
  have "i + 32 \<le> unat (heap_size (heap_state k))"
    using placed_bounds [OF i] placed_min [OF bs i] inv by (simp add: heap_inv_def)
  note nz = payload_nonzero [OF inv this]
  show "kfree (heap_start (heap_state k) + of_nat (i + 12)) k =
      (0, k\<lparr>mem := (mem k)(heap_start (heap_state k) + of_nat (i + 8) := 0)\<rparr>)"
    using nz placed_magic [OF bs i]
    by (simp add: kfree_def HEADER_SIZE_def Let_def add.assoc)
  show "heap_inv (k\<lparr>mem := (mem k)(heap_start (heap_state k) + of_nat (i + 8) := 0)\<rparr>)
      (set_flag False i 0 bs)"
    using inv blocks_at_set_flag [OF bs i, of 0]
    by (simp add: heap_inv_def del: of_nat_add fun_upd_apply)
qed

section \<open>The contract of a block allocator\<close>

text \<open>
  What the users of the heap rely on. \<open>live\<close> are the payloads in use. \<open>malloc\<close> returns; if it
  returns 0 nothing changed, otherwise it adds one payload of at least the requested
  length, apart from all others; \<open>free\<close> of a payload in use takes it out; neither touches
  the bytes of any other payload in use.
\<close>

locale block_allocator =
  fixes malloc :: "u32 \<Rightarrow> 's \<Rightarrow> (u32 \<times> 's) option"
    and free :: "u32 \<Rightarrow> 's \<Rightarrow> int \<times> 's"
    and live :: "'s \<Rightarrow> (u32 \<times> nat) set"
    and peek :: "'s \<Rightarrow> u32 \<Rightarrow> u8"
    and invar :: "'s \<Rightarrow> bool"
  assumes malloc_returns: "invar s \<Longrightarrow> \<exists>p s'. malloc n s = Some (p, s') \<and> invar s'"
    and malloc_null: "invar s \<Longrightarrow> malloc n s = Some (0, s') \<Longrightarrow> s' = s"
    and malloc_live: "invar s \<Longrightarrow> malloc n s = Some (p, s') \<Longrightarrow> p \<noteq> 0 \<Longrightarrow>
      \<exists>l. unat n \<le> l \<and> live s' = insert (p, l) (live s) \<and> (\<forall>q\<in>live s. regions_apart (p, l) q)"
    and malloc_peek: "invar s \<Longrightarrow> malloc n s = Some (p, s') \<Longrightarrow> q \<in> live s \<Longrightarrow> i < snd q \<Longrightarrow>
      peek s' (fst q + of_nat i) = peek s (fst q + of_nat i)"
    and free_ok: "invar s \<Longrightarrow> q \<in> live s \<Longrightarrow> fst (free (fst q) s) = 0"
    and free_live: "invar s \<Longrightarrow> q \<in> live s \<Longrightarrow> live (snd (free (fst q) s)) = live s - {q}"
    and free_invar: "invar s \<Longrightarrow> q \<in> live s \<Longrightarrow> invar (snd (free (fst q) s))"
    and free_peek: "invar s \<Longrightarrow> q \<in> live s \<Longrightarrow> r \<in> live s \<Longrightarrow> i < snd r \<Longrightarrow>
      peek (snd (free (fst q) s)) (fst r + of_nat i) = peek s (fst r + of_nat i)"
begin

lemma malloc_total: "invar s \<Longrightarrow> malloc n s \<noteq> None"
  using malloc_returns [of s n] by auto

lemma malloc_invar: "invar s \<Longrightarrow> malloc n s = Some (p, s') \<Longrightarrow> invar s'"
  using malloc_returns [of s n] by auto

text \<open>A payload in use and its bytes survive any allocation.\<close>

lemma malloc_keeps: "invar s \<Longrightarrow> malloc n s = Some (p, s') \<Longrightarrow> live s \<subseteq> live s'"
proof (cases "p = 0")
  case True
  then show "invar s \<Longrightarrow> malloc n s = Some (p, s') \<Longrightarrow> live s \<subseteq> live s'"
    using malloc_null by blast
next
  case False
  then show "invar s \<Longrightarrow> malloc n s = Some (p, s') \<Longrightarrow> live s \<subseteq> live s'"
    using malloc_live by blast
qed

text \<open>One step of a client, an allocation or the release of another payload, keeps a
  payload in use and every byte of it.\<close>

definition keeps :: "u32 \<times> nat \<Rightarrow> 's \<Rightarrow> 's \<Rightarrow> bool" where
  "keeps q s t \<longleftrightarrow> invar t \<and> q \<in> live t
     \<and> (\<forall>i < snd q. peek t (fst q + of_nat i) = peek s (fst q + of_nat i))"

lemma malloc_step: "invar s \<Longrightarrow> malloc n s = Some (p, t) \<Longrightarrow> q \<in> live s \<Longrightarrow> keeps q s t"
  using malloc_invar malloc_keeps malloc_peek unfolding keeps_def by blast

lemma free_step: "invar s \<Longrightarrow> r \<in> live s \<Longrightarrow> q \<in> live s \<Longrightarrow> q \<noteq> r \<Longrightarrow> keeps q s (snd (free (fst r) s))"
  using free_invar free_live free_peek unfolding keeps_def by blast

lemma keeps_refl: "invar s \<Longrightarrow> q \<in> live s \<Longrightarrow> keeps q s s"
  by (simp add: keeps_def)

lemma keeps_live: "keeps q s t \<Longrightarrow> q \<in> live t" and keeps_invar: "keeps q s t \<Longrightarrow> invar t"
  by (simp_all add: keeps_def)

lemma keeps_trans: "keeps q s t \<Longrightarrow> keeps q t u \<Longrightarrow> keeps q s u"
  by (simp add: keeps_def)

end

text \<open>The heap of the kernel satisfies the contract.\<close>

lemma header_outside_payload:
  assumes "i + 32 \<le> 4294967296" "j + s \<le> 4294967296" "n < s - 12" "i \<le> j \<or> j + s \<le> i"
  shows "\<not> (base + of_nat (j + 12) + of_nat n) - (base + of_nat i :: u32) < 12"
proof -
  have eq: "base + of_nat (j + 12) + of_nat n = base + (of_nat (j + 12 + n) :: u32)"
    by (simp add: add.assoc)
  have "\<not> unat ((base + of_nat (j + 12 + n)) - (base + of_nat i :: u32)) < 12"
  proof (cases "i < j + 12 + n")
    case True
    have "unat ((base + of_nat (j + 12 + n)) - (base + of_nat i :: u32)) = j + 12 + n - i"
      by (rule offset_diff(1)) (use True assms in auto)
    then show ?thesis using True assms by auto
  next
    case False
    have "unat ((base + of_nat (j + 12 + n)) - (base + of_nat i :: u32))
        = 4294967296 - (i - (j + 12 + n))"
      by (rule offset_diff(2)) (use False assms in auto)
    then show ?thesis using False assms by auto
  qed
  then show ?thesis unfolding eq by (simp add: word_less_nat_alt)
qed

lemma heap_ok_blocks:
  assumes "heap_ok k" and "(i, s, u) \<in> set (placed 0 (heap_blocks k))"
  shows "32 \<le> s" and "i + s \<le> unat (heap_size (heap_state k))" and "i + s \<le> 0x7FFFFFF0"
    and "blocks_at (mem k) (heap_start (heap_state k)) 0 (heap_blocks k)"
    and "extent (heap_blocks k) \<le> 4294967296"
proof -
  have inv: "heap_inv k (heap_blocks k)" using assms(1) by (simp add: heap_ok_def)
  show bs: "blocks_at (mem k) (heap_start (heap_state k)) 0 (heap_blocks k)"
    using inv by (simp add: heap_inv_def)
  show "32 \<le> s" by (rule placed_min [OF bs assms(2)])
  show "i + s \<le> unat (heap_size (heap_state k))" "i + s \<le> 0x7FFFFFF0"
    "extent (heap_blocks k) \<le> 4294967296"
    using placed_bounds [OF assms(2)] inv by (auto simp: heap_inv_def)
qed

lemma heap_live_cases:
  assumes "q \<in> heap_live k"
  obtains i s where "q = payload (heap_start (heap_state k)) (i, s)" "(i, s) \<in> used_blocks (heap_blocks k)"
    "(i, s, True) \<in> set (placed 0 (heap_blocks k))"
  using assms by (auto simp: heap_live_def in_used_blocks)

lemma payload_apart:
  assumes "heap_ok k" "(i, s, u) \<in> set (placed 0 (heap_blocks k))"
    "(j, s', u') \<in> set (placed 0 (heap_blocks k))" "i \<noteq> j"
  shows "regions_apart (payload (heap_start (heap_state k)) (i, s))
      (payload (heap_start (heap_state k)) (j, s'))"
  using placed_apart [OF heap_ok_blocks(4,5) [OF assms(1,2)] assms(4,2,3)]
  by (simp add: payload_def)

text \<open>A header of one block and the payload of any block do not meet.\<close>

lemma header_payload_apart:
  assumes "heap_ok k" "(i, s, u) \<in> set (placed 0 (heap_blocks k))"
    "(j, l, u') \<in> set (placed 0 (heap_blocks k))" "n < snd (payload base (j, l))"
  shows "\<not> (fst (payload base (j, l)) + of_nat n) - (base + of_nat i) < 12"
proof -
  have "i \<le> j \<or> j + l \<le> i" using placed_disjoint [OF assms(3,2)] by (meson not_le_imp_less)
  then show ?thesis
    using heap_ok_blocks(1,3) [OF assms(1,2)] heap_ok_blocks(1,3) [OF assms(1,3)] assms(4)
    unfolding payload_def fst_conv snd_conv by (intro header_outside_payload [of _ _ l]) auto
qed

lemma block_taken_live:
  assumes "block_taken k i s k'"
  shows "heap_live k' = insert (payload (heap_start (heap_state k)) (i, s)) (heap_live k)"
    and "q \<in> heap_live k \<Longrightarrow> regions_apart (payload (heap_start (heap_state k)) (i, s)) q"
    and "q \<in> heap_live k \<Longrightarrow> n < snd q \<Longrightarrow>
      mem k' (fst q + of_nat n) = mem k (fst q + of_nat n)"
proof -
  let ?b = "heap_start (heap_state k)"
  have ok: "heap_ok k'" and base: "heap_start (heap_state k') = ?b"
    and used: "used_blocks (heap_blocks k') = insert (i, s) (used_blocks (heap_blocks k))"
    and new: "i \<notin> fst ` used_blocks (heap_blocks k)"
    and writes: "\<And>x. \<not> x - (?b + of_nat i) < 12 \<Longrightarrow> mem k' x = mem k x"
    using assms by (auto simp: block_taken_def)
  show "heap_live k' = insert (payload ?b (i, s)) (heap_live k)"
    by (simp add: heap_live_def used base)
  have i: "(i, s, True) \<in> set (placed 0 (heap_blocks k'))" using used by (auto simp flip: in_used_blocks)
  assume "q \<in> heap_live k"
  then obtain j l where q: "q = payload ?b (j, l)" and j: "(j, l) \<in> used_blocks (heap_blocks k)"
    by (rule heap_live_cases)
  have j': "(j, l, True) \<in> set (placed 0 (heap_blocks k'))" and ne: "i \<noteq> j"
    using used j new by (auto simp flip: in_used_blocks simp: rev_image_eqI)
  show "regions_apart (payload ?b (i, s)) q"
    using payload_apart [OF ok i j' ne] by (simp add: q base)
  show "mem k' (fst q + of_nat n) = mem k (fst q + of_nat n)" if "n < snd q"
    using that header_payload_apart [OF ok i j'] unfolding q by (intro writes) blast
qed

lemma payload_inj:
  assumes "heap_ok k"
  shows "inj_on (payload base) (used_blocks (heap_blocks k))"
proof (rule inj_onI, clarify)
  let ?bs = "heap_blocks k"
  fix j l j' l'
  assume "(j, l) \<in> used_blocks ?bs" "(j', l') \<in> used_blocks ?bs"
    and eq: "payload base (j, l) = payload base (j', l')"
  then have j: "(j, l, True) \<in> set (placed 0 ?bs)" "(j', l', True) \<in> set (placed 0 ?bs)"
    by (simp_all add: in_used_blocks)
  have "j = j'"
    using eq heap_addr_eq_iff [of "j + 12" "j' + 12" base] heap_ok_blocks(1,3) [OF assms j(1)]
      heap_ok_blocks(1,3) [OF assms j(2)] by (simp add: payload_def)
  then show "j = j' \<and> l = l'"
    using placed_functional [OF heap_ok_blocks(4) [OF assms j(1)] j(1)] j(2) by blast
qed

lemma kfree_live:
  assumes ok: "heap_ok k" and q: "q \<in> heap_live k"
  shows "fst (kfree (fst q) k) = 0" and "heap_ok (snd (kfree (fst q) k))"
    and "heap_live (snd (kfree (fst q) k)) = heap_live k - {q}"
    and "r \<in> heap_live k \<Longrightarrow> n < snd r \<Longrightarrow>
      mem (snd (kfree (fst q) k)) (fst r + of_nat n) = mem k (fst r + of_nat n)"
proof -
  let ?b = "heap_start (heap_state k)" and ?bs = "heap_blocks k"
  have inv: "heap_inv k ?bs" using ok by (simp add: heap_ok_def)
  obtain i s where qe: "q = payload ?b (i, s)" and iu: "(i, s) \<in> used_blocks ?bs"
    and i: "(i, s, True) \<in> set (placed 0 ?bs)" using q by (rule heap_live_cases)
  note f = kfree_block [OF inv i]
  have kf: "kfree (fst q) k = (0, k\<lparr>mem := (mem k)(?b + of_nat (i + 8) := 0)\<rparr>)"
    using f(1) by (simp add: qe payload_def)
  show "fst (kfree (fst q) k) = 0" "heap_ok (snd (kfree (fst q) k))"
    using heap_okI [OF f(2)] by (simp_all add: kf)
  have uniq: "\<forall>l u. (i, l, u) \<in> set (placed 0 ?bs) \<longrightarrow> l = s"
    using placed_functional [OF heap_ok_blocks(4) [OF ok i] i] by blast
  show "heap_live (snd (kfree (fst q) k)) = heap_live k - {q}"
    using heap_blocks_eq [OF f(2)] used_blocks_set_flag [OF i uniq, of False] iu payload_inj [OF ok]
    unfolding kf by (simp add: heap_live_def qe inj_on_image_set_diff [where C = "used_blocks ?bs"])
  assume "r \<in> heap_live k" and n: "n < snd r"
  then obtain j l where r: "r = payload ?b (j, l)" and j: "(j, l, True) \<in> set (placed 0 ?bs)"
    by (metis heap_live_cases)
  have "fst r + of_nat n \<noteq> ?b + of_nat (i + 8)"
    using header_payload_apart [OF ok i j] n unfolding r by (intro flag_byte_only) blast
  then show "mem (snd (kfree (fst q) k)) (fst r + of_nat n) = mem k (fst r + of_nat n)"
    by (simp add: kf)
qed

lemma kmalloc_nonnull:
  assumes "heap_ok k" and "kmalloc n k = Some (p, k')" and "p \<noteq> 0"
  shows "\<exists>i s. block_taken k i s k' \<and> 12 + unat n \<le> s \<and> p = fst (payload (heap_start (heap_state k)) (i, s))"
  using assms(2,3)
  by (cases rule: kmalloc_cases [OF assms(1), of n]) (auto simp: payload_def simp del: of_nat_add)

lemma kmalloc_null:
  assumes "heap_ok k" and "kmalloc n k = Some (0, k')"
  shows "k' = k"
proof (cases rule: kmalloc_cases [OF assms(1), of n])
  case 1
  then show ?thesis using assms by simp
next
  case (2 i s k'')
  have "heap_inv k (heap_blocks k)" using assms(1) by (simp add: heap_ok_def)
  moreover have "i + 32 \<le> unat (heap_size (heap_state k))"
    using 2(1) by (auto simp: block_taken_def)
  ultimately have "heap_start (heap_state k) + of_nat (i + 12) \<noteq> 0" by (rule payload_nonzero)
  then show ?thesis using assms(2) 2(3) by simp
qed

interpretation kheap: block_allocator kmalloc kfree heap_live mem heap_ok
proof
  show "\<exists>p k'. kmalloc n k = Some (p, k') \<and> heap_ok k'" if "heap_ok k" for n k
    by (cases rule: kmalloc_cases [OF that, of n]) (use that in \<open>auto simp: block_taken_def\<close>)
  show "\<exists>l. unat n \<le> l \<and> heap_live k' = insert (p, l) (heap_live k)
      \<and> (\<forall>q\<in>heap_live k. regions_apart (p, l) q)"
    if a: "heap_ok k" "kmalloc n k = Some (p, k')" "p \<noteq> 0" for n k p k'
  proof -
    obtain i s where b: "block_taken k i s k'" "12 + unat n \<le> s"
        "p = fst (payload (heap_start (heap_state k)) (i, s))"
      using kmalloc_nonnull [OF a] by blast
    then have "payload (heap_start (heap_state k)) (i, s) = (p, s - 12)" "unat n \<le> s - 12"
      by (simp_all add: payload_def)
    then show ?thesis using block_taken_live [OF b(1)] by (intro exI [of _ "s - 12"]) simp
  qed
  show "mem k' (fst q + of_nat i) = mem k (fst q + of_nat i)"
    if "heap_ok k" "kmalloc n k = Some (p, k')" "q \<in> heap_live k" "i < snd q" for n k p k' q i
  proof (cases "p = 0")
    case True
    then show ?thesis using kmalloc_null that(1,2) by blast
  next
    case False
    then show ?thesis using kmalloc_nonnull [OF that(1,2)] block_taken_live(3) that(3,4) by metis
  qed
  show "k' = k" if "heap_ok k" "kmalloc n k = Some (0, k')" for n k k'
    using that by (rule kmalloc_null)
qed (simp_all add: kfree_live)

section \<open>Where the heap is written\<close>

text \<open>Only headers matter for the blocks: whoever writes inside a payload in use leaves the heap as it is.\<close>

lemma blocks_at_headers:
  assumes "\<And>i s u d. (i, s, u) \<in> set (placed off bs) \<Longrightarrow> d < 12 \<Longrightarrow> m' (base + of_nat (i + d)) = m (base + of_nat (i + d))"
    and "blocks_at m base off bs"
  shows "blocks_at m' base off bs"
  using assms
proof (induction m base off bs rule: blocks_at.induct)
  case (2 m base off s u bs)
  have "\<forall>d<12. m' (base + of_nat (off + d)) = m (base + of_nat (off + d))"
    using 2(2) by (auto simp del: of_nat_add)
  moreover have "blocks_at m' base (off + s) bs" by (rule 2(1)) (use 2(2,3) in \<open>auto simp del: of_nat_add\<close>)
  ultimately show ?case using hdr_cong [of m' base off m] 2(3) by auto
qed simp

lemma heap_payload_write:
  assumes ok: "heap_ok k" and q: "q \<in> heap_live k" and st: "heap_state k' = heap_state k"
    and m: "\<And>a. (\<forall>n < snd q. a \<noteq> fst q + of_nat n) \<Longrightarrow> mem k' a = mem k a"
  shows "heap_ok k'" and "heap_blocks k' = heap_blocks k" and "heap_live k' = heap_live k"
proof -
  let ?b = "heap_start (heap_state k)" and ?bs = "heap_blocks k"
  have inv: "heap_inv k ?bs" using ok by (simp add: heap_ok_def)
  obtain j l where qe: "q = payload ?b (j, l)" and j: "(j, l, True) \<in> set (placed 0 ?bs)"
    using q by (rule heap_live_cases)
  have "mem k' (?b + of_nat (i + d)) = mem k (?b + of_nat (i + d))"
    if i: "(i, s, u) \<in> set (placed 0 ?bs)" and d: "d < 12" for i s u d
  proof (rule m, intro allI impI notI)
    fix n
    assume n: "n < snd q" and eq: "?b + of_nat (i + d) = fst q + of_nat n"
    have "fst q + of_nat n - (?b + of_nat i) = of_nat d" unfolding eq [symmetric] by simp
    moreover have "\<not> fst q + of_nat n - (?b + of_nat i) < 12"
      using header_payload_apart [OF ok i j] n unfolding qe by blast
    ultimately show False using d by (simp add: word_less_nat_alt)
  qed
  moreover have "blocks_at (mem k) ?b 0 ?bs" using inv by (simp add: heap_inv_def)
  ultimately have "blocks_at (mem k') ?b 0 ?bs" by (rule blocks_at_headers)
  then have "heap_inv k' ?bs" using inv by (simp add: heap_inv_def st)
  then show "heap_ok k'" "heap_blocks k' = heap_blocks k" by (simp_all add: heap_okI heap_blocks_eq)
  then show "heap_live k' = heap_live k" by (simp add: heap_live_def st)
qed

text \<open>Every byte of a block lies below the end of the blocks.\<close>

definition in_blocks :: "u32 \<Rightarrow> kernel \<Rightarrow> bool" where
  "in_blocks a k \<longleftrightarrow> (\<exists>j<unat (heap_used (heap_state k)). a = heap_start (heap_state k) + of_nat j)"

lemma block_in_blocks:
  assumes "heap_ok k" and "(i, s, u) \<in> set (placed 0 (heap_blocks k))" and "n < s"
  shows "in_blocks (heap_start (heap_state k) + of_nat (i + n)) k"
proof -
  have "i + n < unat (heap_used (heap_state k))"
    using placed_bounds [OF assms(2)] assms(1,3) by (auto simp: heap_ok_def heap_inv_def)
  then show ?thesis unfolding in_blocks_def by blast
qed

lemma payload_in_blocks:
  assumes "heap_ok k" and "q \<in> heap_live k" and "n < snd q"
  shows "in_blocks (fst q + of_nat n) k"
proof -
  obtain i s where q: "q = payload (heap_start (heap_state k)) (i, s)" and i: "(i, s, True) \<in> set (placed 0 (heap_blocks k))"
    using assms(2) by (rule heap_live_cases)
  have "fst q + of_nat n = heap_start (heap_state k) + of_nat (i + (12 + n))" by (simp add: q payload_def)
  moreover have "12 + n < s" using assms(3) by (simp add: q payload_def)
  ultimately show ?thesis using block_in_blocks [OF assms(1) i] by metis
qed

lemma kmalloc_writes:
  assumes "heap_ok k" and "kmalloc n k = Some (p, k')"
  shows "\<not> in_blocks a k' \<Longrightarrow> mem k' a = mem k a"
    and "heap_start (heap_state k') = heap_start (heap_state k)" and "heap_size (heap_state k') = heap_size (heap_state k)"
proof -
  consider "k' = k" | i s where "block_taken k i s k'"
    using kmalloc_null [OF assms(1), of n k'] kmalloc_nonnull [OF assms] assms(2) by (cases "p = 0") auto
  then have "(\<not> in_blocks a k' \<longrightarrow> mem k' a = mem k a) \<and> heap_start (heap_state k') = heap_start (heap_state k)
      \<and> heap_size (heap_state k') = heap_size (heap_state k)"
  proof cases
    case (2 i s)
    let ?b = "heap_start (heap_state k)"
    have t: "heap_ok k'" "32 \<le> s" "heap_start (heap_state k') = ?b" "heap_size (heap_state k') = heap_size (heap_state k)"
      and i: "(i, s, True) \<in> set (placed 0 (heap_blocks k'))" and w: "\<not> a - (?b + of_nat i) < 12 \<longrightarrow> mem k' a = mem k a"
      using 2 by (auto simp: block_taken_def simp flip: in_used_blocks)
    have "in_blocks a k'" if "a - (?b + of_nat i) < 12"
    proof -
      have "a = ?b + of_nat (i + unat (a - (?b + of_nat i)))" by simp
      moreover have "unat (a - (?b + of_nat i)) < s" using that t(2) by (simp add: word_less_nat_alt)
      ultimately show ?thesis using block_in_blocks [OF t(1) i] t(3) by metis
    qed
    then show ?thesis using w t(3,4) by blast
  qed simp
  then show "\<not> in_blocks a k' \<Longrightarrow> mem k' a = mem k a" "heap_start (heap_state k') = heap_start (heap_state k)"
    "heap_size (heap_state k') = heap_size (heap_state k)" by blast+
qed

lemma kfree_writes:
  assumes "heap_ok k" and "q \<in> heap_live k"
  shows "\<exists>m. snd (kfree (fst q) k) = k\<lparr>mem := m\<rparr>"
    and "\<not> in_blocks a k \<Longrightarrow> mem (snd (kfree (fst q) k)) a = mem k a"
proof -
  let ?b = "heap_start (heap_state k)"
  obtain i s where q: "q = payload ?b (i, s)" and i: "(i, s, True) \<in> set (placed 0 (heap_blocks k))"
    using assms(2) by (rule heap_live_cases)
  have inv: "heap_inv k (heap_blocks k)" using assms(1) by (simp add: heap_ok_def)
  have kf: "snd (kfree (fst q) k) = k\<lparr>mem := (mem k)(?b + of_nat (i + 8) := 0)\<rparr>"
    using kfree_block(1) [OF inv i] by (simp add: q payload_def)
  then show "\<exists>m. snd (kfree (fst q) k) = k\<lparr>mem := m\<rparr>" by blast
  have "in_blocks (?b + of_nat (i + 8)) k"
    using block_in_blocks [OF assms(1) i, of 8] heap_ok_blocks(1) [OF assms(1) i] by simp
  then show "\<not> in_blocks a k \<Longrightarrow> mem (snd (kfree (fst q) k)) a = mem k a" unfolding kf by auto
qed

section \<open>Properties\<close>

lemma heap_init_ok:
  assumes "unat start + unat sz \<le> 4294967296" and "unat sz \<le> 0x7FFFFFF0"
  shows "heap_ok (snd (heap_init start sz k))" and "heap_blocks (snd (heap_init start sz k)) = []"
proof -
  have "heap_inv (snd (heap_init start sz k)) []"
    using assms by (simp add: heap_inv_def heap_init_def)
  then show "heap_ok (snd (heap_init start sz k))" "heap_blocks (snd (heap_init start sz k)) = []"
    by (simp_all add: heap_okI heap_blocks_eq)
qed

lemma kmalloc_refines:
  assumes "heap_ok k"
  shows "case kmalloc_spec (unat (heap_size (heap_state k))) (unat sz) (heap_blocks k) of
      None \<Rightarrow> kmalloc sz k = Some (0, k)
    | Some (i, bs) \<Rightarrow> \<exists>k'. kmalloc sz k = Some (heap_start (heap_state k) + of_nat (i + 12), k')
        \<and> heap_ok k' \<and> heap_blocks k' = bs"
proof -
  let ?bs = "heap_blocks k" and ?t = "max 32 (12 + unat sz)"
  have inv: "heap_inv k ?bs" using assms by (simp add: heap_ok_def)
  show ?thesis
  proof (cases "sz = 0 \<or> unat (heap_size (heap_state k)) < unat sz")
    case True
    then show ?thesis by (auto simp: kmalloc_def kmalloc_spec_def word_less_nat_alt)
  next
    case False
    then have sz: "sz \<noteq> 0" "unat sz \<le> unat (heap_size (heap_state k))" "unat sz \<noteq> 0"
      by (auto simp: unat_eq_0)
    show ?thesis
    proof (cases "first_fit ?t 0 ?bs")
      case (Some i)
      show ?thesis
        using kmalloc_reuses [OF inv sz(1,2) Some] sz Some
        by (auto simp: kmalloc_spec_def Let_def heap_inv_iff simp del: of_nat_add)
    next
      case None
      show ?thesis
        using kmalloc_extends [OF inv sz(1,2) None] sz None
        by (auto simp: kmalloc_spec_def Let_def heap_inv_iff simp del: of_nat_add)
    qed
  qed
qed

text \<open>The heap as \<^verbatim>\<open>kmain\<close> sets it up: 8 MB from 0xC0100000 on.\<close>

definition kmain_heap :: kernel where
  "kmain_heap = snd (heap_init (KERNEL_VIRT_BASE + 0x100000) (8 * 1024 * 1024)
     (boot_kernel (\<lambda>_. 0) (\<lambda>_. 0) (\<lambda>_ _. 0)))"

text \<open>A request that would fit behind the last block succeeds, and a call touches memory and the
  heap's own counters only.\<close>

lemma kmalloc_room:
  assumes "heap_ok k" and "sz \<noteq> 0"
    and "unat (heap_used (heap_state k)) + max 32 (12 + unat sz) \<le> unat (heap_size (heap_state k))"
  shows "\<exists>p k'. kmalloc sz k = Some (p, k') \<and> p \<noteq> 0 \<and> heap_ok k'"
proof -
  let ?bs = "heap_blocks k"
  have inv: "heap_inv k ?bs" using assms(1) by (simp add: heap_ok_def)
  have ext: "extent ?bs = unat (heap_used (heap_state k))" using inv by (simp add: heap_inv_def)
  have sz: "unat sz \<le> unat (heap_size (heap_state k))" using assms(3) by simp
  show ?thesis
  proof (cases "first_fit (max 32 (12 + unat sz)) 0 ?bs")
    case None
    have "extent ?bs + 32 \<le> unat (heap_size (heap_state k))" using assms(3) ext by simp
    then show ?thesis
      using kmalloc_extends [OF inv assms(2) sz None] payload_nonzero [OF inv, of "extent ?bs"] assms(3) ext
      by (auto simp: heap_inv_iff simp del: of_nat_add)
  next
    case (Some i)
    obtain s where "(i, s, False) \<in> set (placed 0 ?bs)" using first_fit_placed [OF Some] by auto
    then have "i + 32 \<le> unat (heap_size (heap_state k))" using heap_ok_blocks [OF assms(1)] by fastforce
    then show ?thesis
      using kmalloc_reuses [OF inv assms(2) sz Some] payload_nonzero [OF inv, of i]
      by (auto simp: heap_inv_iff simp del: of_nat_add fun_upd_apply)
  qed
qed

lemma kmalloc_frame:
  assumes "kmalloc sz k = Some (p, k')"
  shows "k' = k\<lparr>mem := mem k', heap_state := heap_state k'\<rparr>"
  using assms by (auto simp: kmalloc_def Let_def split: if_splits option.splits heap_search.splits)

lemma kmalloc_rest:
  assumes "kmalloc sz k = Some (p, k')"
  shows "pmm_state k' = pmm_state k" and "kbd_state k' = kbd_state k" and "vga_state k' = vga_state k"
    and "process_table k' = process_table k" and "current_process k' = current_process k"
    and "current_pid k' = current_pid k" and "next_pid k' = next_pid k"
  by (subst kmalloc_frame [OF assms], simp)+

text \<open>The heap depends on the bytes it has carved into blocks only.\<close>

lemma heap_cong:
  assumes "heap_ok k" and "heap_state k' = heap_state k"
    and "\<forall>i<unat (heap_used (heap_state k)).
      mem k' (heap_start (heap_state k) + of_nat i) = mem k (heap_start (heap_state k) + of_nat i)"
  shows "heap_ok k'" and "heap_live k' = heap_live k"
proof -
  have inv: "heap_inv k (heap_blocks k)" using assms(1) by (simp add: heap_ok_def)
  have "blocks_at (mem k') (heap_start (heap_state k)) 0 (heap_blocks k)"
    by (rule blocks_at_cong [where m = "mem k"]) (use inv assms(3) in \<open>auto simp: heap_inv_def\<close>)
  then have "heap_inv k' (heap_blocks k)" using inv assms(2) by (simp add: heap_inv_def)
  then show "heap_ok k'" "heap_live k' = heap_live k"
    by (simp_all add: heap_okI heap_blocks_eq heap_live_def assms(2))
qed

lemma kmain_heap_ok: "heap_ok kmain_heap" and kmain_heap_blocks: "heap_blocks kmain_heap = []"
  unfolding kmain_heap_def by (rule heap_init_ok; simp add: KERNEL_VIRT_BASE_def)+

lemma kmain_heap_state:
  "heap_start (heap_state kmain_heap) = 0xC0100000" "heap_size (heap_state kmain_heap) = 0x800000"
  by (simp_all add: kmain_heap_def heap_init_def KERNEL_VIRT_BASE_def)

lemma kmain_heap_kmalloc_21:
  "\<exists>k'. kmalloc 21 kmain_heap = Some (0xC010000C, k') \<and> heap_ok k' \<and> heap_blocks k' = [(33, True)]"
  using kmalloc_refines [OF kmain_heap_ok, of 21]
  by (simp add: kmain_heap_state kmain_heap_blocks kmalloc_spec_def)

text \<open>C16: on a well-formed heap \<^verbatim>\<open>kmalloc\<close> returns, and does to the list of blocks what
  first-fit does: it refuses a size of 0 and a size above the heap's, else it reuses the
  first free block that is large enough without splitting it, else it appends a block of
  the requested size plus header (at least 32 bytes) if that still fits; otherwise it
  returns a null pointer and changes nothing.\<close>

theorem kmalloc_refines_first_fit:
  assumes "heap_ok k"
  shows "case kmalloc_spec (unat (heap_size (heap_state k))) (unat sz) (heap_blocks k) of
      None \<Rightarrow> kmalloc sz k = Some (0, k)
    | Some (i, bs) \<Rightarrow> \<exists>k'. kmalloc sz k = Some (heap_start (heap_state k) + of_nat (i + 12), k')
        \<and> heap_ok k' \<and> heap_blocks k' = bs"
  using assms by (rule kmalloc_refines)

theorem kmalloc_refines_first_fit_witness:
  "\<exists>k'. kmalloc 21 kmain_heap = Some (0xC010000C, k') \<and> heap_blocks k' = [(33, True)]"
  using kmalloc_refines_first_fit [OF kmain_heap_ok, of 21]
  by (auto simp: kmain_heap_state kmain_heap_blocks kmalloc_spec_def)

text \<open>C1: a pointer that \<^verbatim>\<open>kmalloc\<close> returns (other than the null pointer) is the start of a
  payload of at least the requested size that lies inside the heap and shares no byte with
  any payload in use, and no byte of those payloads is changed by the call.\<close>

theorem kmalloc_safe:
  assumes "heap_ok k" and "kmalloc sz k = Some (p, k')" and "p \<noteq> 0"
  shows "\<exists>l. unat sz \<le> l \<and> heap_live k' = insert (p, l) (heap_live k)
      \<and> unat (heap_start (heap_state k)) < unat p
      \<and> unat p + l \<le> unat (heap_start (heap_state k)) + unat (heap_size (heap_state k))
      \<and> (\<forall>q\<in>heap_live k. regions_apart (p, l) q
           \<and> (\<forall>i < snd q. mem k' (fst q + of_nat i) = mem k (fst q + of_nat i)))"
proof -
  obtain i s where b: "block_taken k i s k'" "12 + unat sz \<le> s"
      "p = fst (payload (heap_start (heap_state k)) (i, s))"
    using kmalloc_nonnull [OF assms] by blast
  have pl: "payload (heap_start (heap_state k)) (i, s) = (p, s - 12)" using b(3) by (simp add: payload_def)
  have bound: "i + s \<le> unat (heap_size (heap_state k))" "32 \<le> s"
    using b(1) by (auto simp: block_taken_def)
  have "unat (heap_start (heap_state k)) + unat (heap_size (heap_state k)) \<le> 4294967296"
    using assms(1) by (simp add: heap_ok_def heap_inv_def)
  with bound have p: "unat p = unat (heap_start (heap_state k)) + (i + 12)"
    unfolding b(3) payload_def by (simp add: unat_word_ariths del: of_nat_add)
  show ?thesis
    using block_taken_live [OF b(1)] bound b(2) p unfolding pl
    by (intro exI [of _ "s - 12"]) auto
qed

theorem kmalloc_safe_witness:
  "\<exists>k' l. kmalloc 21 kmain_heap = Some (0xC010000C, k') \<and> 21 \<le> l
     \<and> heap_live k' = insert (0xC010000C, l) (heap_live kmain_heap)"
proof -
  obtain k' where k': "kmalloc 21 kmain_heap = Some (0xC010000C, k')"
    using kmain_heap_kmalloc_21 by blast
  have "(0xC010000C :: u32) \<noteq> 0" by simp
  from kmalloc_safe [OF kmain_heap_ok k' this] k' show ?thesis by auto
qed

text \<open>C21: \<^verbatim>\<open>kfree\<close> of a payload in use returns 0 and takes exactly that payload out of the ones
  in use, without changing a byte of any payload; the part of the heap in use never shrinks.
  \<^verbatim>\<open>kfree(NULL)\<close> returns 0 and does nothing, and a pointer without the magic number in front
  of it is refused with -1 and no change.\<close>

theorem kfree_correct:
  assumes "heap_ok k"
  shows "(q \<in> heap_live k \<longrightarrow>
           fst (kfree (fst q) k) = 0 \<and> heap_ok (snd (kfree (fst q) k))
           \<and> heap_live (snd (kfree (fst q) k)) = heap_live k - {q}
           \<and> heap_state (snd (kfree (fst q) k)) = heap_state k
           \<and> (\<forall>r\<in>heap_live k. \<forall>i < snd r.
                mem (snd (kfree (fst q) k)) (fst r + of_nat i) = mem k (fst r + of_nat i)))
       \<and> kfree 0 k = (0, k)
       \<and> (p \<noteq> 0 \<and> hdr_magic (mem k) (p - 12) \<noteq> ALLOC_MAGIC \<longrightarrow> kfree p k = (-1, k))"
proof -
  have "heap_state (snd (kfree p k)) = heap_state k" for p
    by (simp add: kfree_def Let_def)
  then show ?thesis
    using kfree_live [OF assms]
    by (simp add: kfree_def [of 0] kfree_def [of p] HEADER_SIZE_def Let_def)
qed

lemma kmain_heap_live_21:
  assumes "kmalloc 21 kmain_heap = Some (0xC010000C, k')"
  shows "heap_live k' = {(0xC010000C, 21)}" and "heap_ok k'"
proof -
  have b: "heap_ok k'" "heap_blocks k' = [(33, True)]"
    using kmain_heap_kmalloc_21 assms by auto
  then show "heap_ok k'" by simp
  obtain i s where "block_taken kmain_heap i s k'" using kmalloc_nonnull [OF kmain_heap_ok assms] by auto
  then have "heap_start (heap_state k') = 0xC0100000"
    by (simp add: block_taken_def kmain_heap_state)
  then show "heap_live k' = {(0xC010000C, 21)}"
    using b(2) by (simp add: heap_live_def used_blocks_def payload_def)
qed

theorem kfree_correct_witness:
  "\<exists>k'. kmalloc 21 kmain_heap = Some (0xC010000C, k')
     \<and> fst (kfree 0xC010000C k') = 0 \<and> heap_live (snd (kfree 0xC010000C k')) = {}"
proof -
  obtain k' where k': "kmalloc 21 kmain_heap = Some (0xC010000C, k')"
    using kmain_heap_kmalloc_21 by blast
  show ?thesis
    using kfree_correct [OF kmain_heap_live_21(2) [OF k'], of "(0xC010000C, 21)" 0]
      kmain_heap_live_21(1) [OF k'] k' by simp
qed

text \<open>Runs of heap operations by well-behaved clients: \<open>heap_run k F k'\<close> leads from \<open>k\<close> to
  \<open>k'\<close> by calls of \<^verbatim>\<open>kmalloc\<close> with any sizes and by releases of payloads that are in use
  when they are released; \<open>F\<close> are the payloads released.\<close>

inductive heap_run :: "kernel \<Rightarrow> (u32 \<times> nat) set \<Rightarrow> kernel \<Rightarrow> bool" where
  run_done: "heap_run k {} k"
| run_kmalloc: "kmalloc n k = Some (p, k1) \<Longrightarrow> heap_run k1 F k2 \<Longrightarrow> heap_run k F k2"
| run_kfree: "q \<in> heap_live k \<Longrightarrow> heap_run (snd (kfree (fst q) k)) F k2 \<Longrightarrow> heap_run k (insert q F) k2"

lemma heap_run_keeps:
  "heap_run k F k' \<Longrightarrow> heap_ok k \<Longrightarrow> q \<in> heap_live k \<Longrightarrow> q \<notin> F \<Longrightarrow> kheap.keeps q k k'"
proof (induction rule: heap_run.induct)
  case (run_done k)
  then show ?case by (intro kheap.keeps_refl)
next
  case (run_kmalloc n k p k1 F k2)
  from kheap.malloc_step [OF run_kmalloc.prems(1) run_kmalloc.hyps(1) run_kmalloc.prems(2)]
  have 1: "kheap.keeps q k k1" .
  with run_kmalloc show ?case by (auto simp: kheap.keeps_def)
next
  case (run_kfree r k F k2)
  then have "kheap.keeps q k (snd (kfree (fst r) k))" by (intro kheap.free_step) auto
  with run_kfree show ?case by (auto simp: kheap.keeps_def)
qed

text \<open>C11: whatever sequence of allocations and proper releases runs, a payload that is in use
  and not released stays in use with all its bytes unchanged, and the heap stays well formed.\<close>

theorem heap_run_preserves_payload:
  assumes "heap_run k F k'" and "heap_ok k" and "q \<in> heap_live k" and "q \<notin> F"
  shows "heap_ok k' \<and> q \<in> heap_live k'
    \<and> (\<forall>i < snd q. mem k' (fst q + of_nat i) = mem k (fst q + of_nat i))"
  using heap_run_keeps [OF assms] by (simp add: kheap.keeps_def)

theorem heap_run_preserves_payload_witness:
  "\<exists>k1 k2. kmalloc 21 kmain_heap = Some (0xC010000C, k1) \<and> heap_run k1 {} k2 \<and> kmalloc 4 k1 = Some (0xC010002D, k2)
     \<and> (0xC010000C, 21) \<in> heap_live k2 \<and> (\<forall>i<21. mem k2 (0xC010000C + of_nat i) = mem k1 (0xC010000C + of_nat i))"
proof -
  obtain k1 where k1: "kmalloc 21 kmain_heap = Some (0xC010000C, k1)"
      "heap_ok k1" "heap_blocks k1 = [(33, True)]"
    using kmain_heap_kmalloc_21 by blast
  obtain i s where "block_taken kmain_heap i s k1" using kmalloc_nonnull [OF kmain_heap_ok k1(1)] by auto
  then have st: "heap_start (heap_state k1) = 0xC0100000" "heap_size (heap_state k1) = 0x800000"
    by (simp_all add: block_taken_def kmain_heap_state)
  obtain k2 where k2: "kmalloc 4 k1 = Some (0xC010002D, k2)"
    using kmalloc_refines [OF k1(2), of 4] by (auto simp: st k1(3) kmalloc_spec_def)
  have run: "heap_run k1 {} k2" by (rule run_kmalloc [OF k2 run_done])
  have q: "(0xC010000C, 21) \<in> heap_live k1" using kmain_heap_live_21 [OF k1(1)] by simp
  show ?thesis
    using heap_run_preserves_payload [OF run k1(2) q] run k1(1) k2 by auto
qed

lemma first_fit_exists:
  "(i, s, False) \<in> set (placed off bs) \<Longrightarrow> t \<le> s \<Longrightarrow> first_fit t off bs \<noteq> None"
  by (induction t off bs rule: first_fit.induct) auto

text \<open>Memory that is released can be had again: after \<^verbatim>\<open>kfree\<close> of a payload, a request for
  no more than its length succeeds.\<close>

lemma kfree_makes_room:
  assumes "heap_ok k" and "q \<in> heap_live k" and "n \<noteq> 0" and "unat n \<le> snd q"
  shows "\<exists>p k'. kmalloc n (snd (kfree (fst q) k)) = Some (p, k') \<and> p \<noteq> 0"
proof -
  have inv: "heap_inv k (heap_blocks k)" using assms(1) by (simp add: heap_ok_def)
  obtain i s where q: "q = payload (heap_start (heap_state k)) (i, s)"
    and i: "(i, s, True) \<in> set (placed 0 (heap_blocks k))" using assms(2) by (rule heap_live_cases)
  note f = kfree_block [OF inv i]
  note b = heap_ok_blocks(1,2) [OF assms(1) i]
  let ?k = "snd (kfree (fst q) k)" and ?bs = "set_flag False i 0 (heap_blocks k)"
  have k: "heap_inv ?k ?bs" "heap_size (heap_state ?k) = heap_size (heap_state k)"
    using f by (simp_all add: q payload_def)
  have s: "snd q = s - 12" by (simp add: q payload_def)
  have "max 32 (12 + unat n) \<le> s \<and> unat n \<le> unat (heap_size (heap_state k))"
    using assms(4) b(1,2) unfolding s by linarith
  then have n: "max 32 (12 + unat n) \<le> s" "unat n \<le> unat (heap_size (heap_state ?k))"
    by (simp_all only: k(2))
  have "(i, s, False) \<in> set (placed 0 ?bs)" using i unfolding placed_set_flag by auto
  then obtain j where j: "first_fit (max 32 (12 + unat n)) 0 ?bs = Some j"
    using first_fit_exists n(1) by blast
  obtain l where "(j, l, False) \<in> set (placed 0 ?bs)" using first_fit_placed [OF j] by auto
  then have "j + 32 \<le> unat (heap_size (heap_state ?k))"
    using heap_ok_blocks(1,2) [OF heap_okI [OF k(1)], of j l False] heap_blocks_eq [OF k(1)] by auto
  then show ?thesis
    using kmalloc_reuses(1) [OF k(1) assms(3) n(2) j] payload_nonzero [OF k(1), of j] by blast
qed

lemma kfree_makes_room_witness:
  "\<exists>k1 p k2. kmalloc 21 kmain_heap = Some (0xC010000C, k1)
     \<and> kmalloc 20 (snd (kfree 0xC010000C k1)) = Some (p, k2) \<and> p \<noteq> 0"
proof -
  obtain k1 where k1: "kmalloc 21 kmain_heap = Some (0xC010000C, k1)" "heap_ok k1"
    using kmain_heap_kmalloc_21 by blast
  show ?thesis
    using kfree_makes_room [OF k1(2), of "(0xC010000C, 21)" 20] kmain_heap_live_21 [OF k1(1)] k1(1)
    by auto
qed

text \<open>Block sizes are not rounded up to a multiple of the word size: behind a first block of
  \<open>n\<close> payload bytes (at least 20) the second pointer is \<open>12 + n\<close> bytes further, so it is
  unaligned whenever \<open>n\<close> is no multiple of 4.\<close>

lemma kmalloc_not_aligned:
  assumes "heap_ok k" and "heap_blocks k = []" and "20 \<le> unat n" and "m \<noteq> 0"
    and "12 + unat n + max 32 (12 + unat m) \<le> unat (heap_size (heap_state k))"
  shows "\<exists>k1 k2. kmalloc n k = Some (heap_start (heap_state k) + 12, k1)
    \<and> kmalloc m k1 = Some (heap_start (heap_state k) + of_nat (12 + unat n) + 12, k2)"
proof -
  have "n \<noteq> 0" using assms(3) by auto
  have m: "unat m \<noteq> 0" using assms(4) by (simp add: unat_eq_0)
  obtain k1 where k1: "kmalloc n k = Some (heap_start (heap_state k) + 12, k1)" "heap_ok k1"
      "heap_blocks k1 = [(12 + unat n, True)]"
    using kmalloc_refines [OF assms(1), of n] assms(2,3,5) by (auto simp: kmalloc_spec_def max_def split: if_splits)
  have "heap_start (heap_state k) + 12 \<noteq> 0"
    using payload_nonzero [of k "[]" 0] assms(1,2,5) by (simp add: heap_ok_def)
  then obtain i s where "block_taken k i s k1" using kmalloc_nonnull [OF assms(1) k1(1)] by auto
  then have st: "heap_start (heap_state k1) = heap_start (heap_state k)"
      "heap_size (heap_state k1) = heap_size (heap_state k)"
    by (simp_all add: block_taken_def)
  have "kmalloc_spec (unat (heap_size (heap_state k1))) (unat m) (heap_blocks k1) =
      Some (12 + unat n, [(12 + unat n, True), (max 32 (12 + unat m), True)])"
    unfolding kmalloc_spec_def st k1(3) using m assms(5) by simp
  then obtain k2 where k2: "kmalloc m k1 = Some (heap_start (heap_state k1) + of_nat (12 + unat n + 12), k2)"
    using kmalloc_refines [OF k1(2), of m] by auto
  have "heap_start (heap_state k1) + of_nat (12 + unat n + 12) = heap_start (heap_state k) + of_nat (12 + unat n) + 12"
    unfolding st(1) of_nat_add by simp
  with k1(1) k2 show ?thesis by metis
qed

lemma kmalloc_not_aligned_witness:
  "\<exists>k1 k2. kmalloc 21 kmain_heap = Some (0xC010000C, k1) \<and> kmalloc 4 k1 = Some (0xC010002D, k2)
     \<and> (0xC010002D :: u32) mod 4 = 1"
  using kmalloc_not_aligned [OF kmain_heap_ok kmain_heap_blocks, of 21 4]
  by (simp add: kmain_heap_state)

end
