(* ===== verification/Pmm.thy ===== *)
theory Pmm
  imports Kernel_State
begin

text \<open>
  The physical memory manager, \<^verbatim>\<open>src/kernel/mm/pmm.c\<close>: a bitmap in memory with one bit per
  4 KB frame and a counter of allocated frames. The operations are translated first; then
  the abstraction (the set of allocated frame numbers), the invariant, and the contract
  \<open>frame_allocator\<close> that the paging and process code relies on, which the bitmap code
  satisfies.
\<close>

section \<open>The code\<close>

definition pmm_init :: "u32 \<Rightarrow> kernel \<Rightarrow> int \<times> kernel" where
  "pmm_init total_memory k =
     (let total = total_memory div PAGE_SIZE;
          bsize = (total + 7) div 8;
          base = KERNEL_VIRT_BASE + 0x200000
      in (1, k\<lparr>pmm_state := \<lparr>bitmap = base, total_pages = total, allocated_pages = 0,
                             bitmap_size = bsize\<rparr>,
               mem := fold (\<lambda>i m. m(base + of_nat i := 0)) [0..<unat bsize] (mem k)\<rparr>))"

text \<open>The address of the byte that holds a bit, and \<^verbatim>\<open>1 << bit_idx\<close> truncated to a byte.\<close>

definition bitmap_byte :: "u32 \<Rightarrow> kernel \<Rightarrow> u32" where
  "bitmap_byte b k = bitmap (pmm_state k) + b div 8"

definition bit_mask8 :: "u32 \<Rightarrow> u8" where
  "bit_mask8 b = ucast (push_bit (unat (b mod 8)) (1 :: u32))"

definition bitmap_set_bit :: "u32 \<Rightarrow> kernel \<Rightarrow> kernel" where
  "bitmap_set_bit b k =
     (let a = bitmap_byte b k
      in k\<lparr>mem := (mem k)(a := mem k a OR bit_mask8 b)\<rparr>)"

definition bitmap_clear_bit :: "u32 \<Rightarrow> kernel \<Rightarrow> kernel" where
  "bitmap_clear_bit b k =
     (let a = bitmap_byte b k
      in k\<lparr>mem := (mem k)(a := mem k a AND NOT (bit_mask8 b))\<rparr>)"

definition bitmap_test_bit :: "u32 \<Rightarrow> kernel \<Rightarrow> bool" where
  "bitmap_test_bit b k =
     (drop_bit (unat (b mod 8)) (mem k (bitmap_byte b k)) AND 1 \<noteq> 0)"

text \<open>The loop of \<^verbatim>\<open>find_free_page\<close> from index \<open>i\<close> on.\<close>

function find_free_page_from :: "u32 \<Rightarrow> kernel \<Rightarrow> u32" where
  "find_free_page_from i k =
     (if i < total_pages (pmm_state k)
      then if \<not> bitmap_test_bit i k then i else find_free_page_from (i + 1) k
      else 0xFFFFFFFF)"
  by pat_completeness auto
termination
  by (relation "measure (\<lambda>(i, k). unat (total_pages (pmm_state k)) - unat i)")
     (auto simp: unat_Suc_u32 word_less_nat_alt)

declare find_free_page_from.simps [simp del]

definition find_free_page :: "kernel \<Rightarrow> u32" where
  "find_free_page k = find_free_page_from 0 k"

definition pmm_alloc :: "kernel \<Rightarrow> u32 \<times> kernel" where
  "pmm_alloc k =
     (let page_idx = find_free_page k
      in if page_idx = 0xFFFFFFFF then (0, k)
         else let k1 = bitmap_set_bit page_idx k
              in (page_idx * PAGE_SIZE,
                  k1\<lparr>pmm_state := (pmm_state k1)
                       \<lparr>allocated_pages := allocated_pages (pmm_state k1) + 1\<rparr>\<rparr>))"

definition pmm_free :: "u32 \<Rightarrow> kernel \<Rightarrow> int \<times> kernel" where
  "pmm_free addr k =
     (if addr mod PAGE_SIZE \<noteq> 0 then (-1, k)
      else let page_idx = addr div PAGE_SIZE
           in if page_idx \<ge> total_pages (pmm_state k) then (-1, k)
              else if \<not> bitmap_test_bit page_idx k then (-1, k)
              else let k1 = bitmap_clear_bit page_idx k
                   in (0, k1\<lparr>pmm_state := (pmm_state k1)
                        \<lparr>allocated_pages := allocated_pages (pmm_state k1) - 1\<rparr>\<rparr>))"

definition pmm_get_allocated :: "kernel \<Rightarrow> u32" where
  "pmm_get_allocated k = allocated_pages (pmm_state k)"

definition pmm_get_total :: "kernel \<Rightarrow> u32" where
  "pmm_get_total k = total_pages (pmm_state k)"

definition pmm_get_free :: "kernel \<Rightarrow> u32" where
  "pmm_get_free k = total_pages (pmm_state k) - allocated_pages (pmm_state k)"

section \<open>Bits of the bitmap\<close>

lemma bitmap_byte_state_upd [simp]:
  "bitmap_byte b (k\<lparr>mem := m\<rparr>) = bitmap_byte b k"
  "bitmap_byte b (k\<lparr>pmm_state := p\<rparr>) = bitmap p + b div 8"
  by (simp_all add: bitmap_byte_def)

lemma bitmap_test_bit_iff:
  "bitmap_test_bit b k \<longleftrightarrow> bit (mem k (bitmap_byte b k)) (unat (b mod 8))"
  by (simp add: bitmap_test_bit_def and_one_eq bit_iff_odd_drop_bit mod_2_eq_odd)

lemma div8_mod8_inj:
  assumes "(b :: u32) div 8 = c div 8" and "b mod 8 = c mod 8"
  shows "b = c"
  using assms by (metis div_mult_mod_eq)

lemma unat_mod8_less [simp]: "unat ((b :: u32) mod 8) < 8"
  by (simp add: unat_mod)

lemma bit_mask8_iff: "bit (bit_mask8 b) n \<longleftrightarrow> n = unat (b mod 8)"
  using less_trans [OF unat_mod8_less [of b], of 32]
  by (auto simp: bit_mask8_def bit_simps)

lemma bitmap_test_set:
  "bitmap_test_bit b (bitmap_set_bit c k) \<longleftrightarrow> b = c \<or> bitmap_test_bit b k"
  by (auto simp: bitmap_test_bit_iff bitmap_set_bit_def Let_def bit_or_iff bit_mask8_iff
      word_unat_eq_iff [symmetric] bitmap_byte_def intro: div8_mod8_inj)

lemma bitmap_test_clear:
  "bitmap_test_bit b (bitmap_clear_bit c k) \<longleftrightarrow> b \<noteq> c \<and> bitmap_test_bit b k"
  by (auto simp: bitmap_test_bit_iff bitmap_clear_bit_def Let_def bit_and_iff bit_not_iff bit_mask8_iff
      word_unat_eq_iff [symmetric] bitmap_byte_def intro: div8_mod8_inj)

lemma bitmap_test_bit_pmm_upd [simp]:
  "bitmap p = bitmap (pmm_state k) \<Longrightarrow>
     bitmap_test_bit b (k\<lparr>pmm_state := p\<rparr>) = bitmap_test_bit b k"
  by (simp add: bitmap_test_bit_iff bitmap_byte_def)

lemma bitmap_bit_pmm_state [simp]:
  "pmm_state (bitmap_set_bit b k) = pmm_state k"
  "pmm_state (bitmap_clear_bit b k) = pmm_state k"
  by (simp_all add: bitmap_set_bit_def bitmap_clear_bit_def Let_def)

section \<open>The search\<close>

lemma find_free_page_from_cases:
  "(\<exists>j. find_free_page_from i k = j \<and> i \<le> j \<and> j < total_pages (pmm_state k)
       \<and> \<not> bitmap_test_bit j k \<and> (\<forall>l. i \<le> l \<and> l < j \<longrightarrow> bitmap_test_bit l k))
   \<or> (find_free_page_from i k = 0xFFFFFFFF
       \<and> (\<forall>l. i \<le> l \<and> l < total_pages (pmm_state k) \<longrightarrow> bitmap_test_bit l k))"
proof (induction i k rule: find_free_page_from.induct)
  case (1 i k)
  have step: "i < total_pages (pmm_state k) \<Longrightarrow> i \<le> l \<longleftrightarrow> l = i \<or> i + 1 \<le> l" for l
    by unat_arith
  have le: "i < total_pages (pmm_state k) \<Longrightarrow> i + 1 \<le> l \<Longrightarrow> i \<le> l" for l
    using step by blast
  show ?case
  proof (cases "i < total_pages (pmm_state k) \<and> bitmap_test_bit i k")
    case True
    then show ?thesis using "1" step le
      by (subst (1 2) find_free_page_from.simps) (simp, blast)
  next
    case False
    then show ?thesis
      by (subst (1 2) find_free_page_from.simps) auto
  qed
qed

section \<open>Abstraction and invariant\<close>

text \<open>The set of allocated frame numbers, the number of frames, and what the code keeps
  true: the counter is the number of set bits, and the bitmap covers every frame.\<close>

definition allocated_frames :: "kernel \<Rightarrow> nat set" where
  "allocated_frames k =
     set (filter (\<lambda>i. bitmap_test_bit (of_nat i) k) [0..<unat (total_pages (pmm_state k))])"

definition frame_count :: "kernel \<Rightarrow> nat" where
  "frame_count k = unat (total_pages (pmm_state k))"

definition pmm_inv :: "kernel \<Rightarrow> bool" where
  "pmm_inv k \<longleftrightarrow>
     bitmap (pmm_state k) = KERNEL_VIRT_BASE + 0x200000 \<and>
     frame_count k \<le> 0x100000 \<and>
     bitmap_size (pmm_state k) = (total_pages (pmm_state k) + 7) div 8 \<and>
     unat (allocated_pages (pmm_state k)) = card (allocated_frames k)"

lemma in_allocated_frames:
  "i \<in> allocated_frames k \<longleftrightarrow> i < frame_count k \<and> bitmap_test_bit (of_nat i) k"
  by (auto simp: allocated_frames_def frame_count_def)

lemma allocated_frames_bound: "allocated_frames k \<subseteq> {..<frame_count k}"
  by (auto simp: in_allocated_frames)

lemma finite_allocated_frames [simp]: "finite (allocated_frames k)"
  by (simp add: allocated_frames_def)

lemma allocated_frames_cong:
  assumes "total_pages (pmm_state k') = total_pages (pmm_state k)"
    and "\<And>i. i < frame_count k \<Longrightarrow>
      bitmap_test_bit (of_nat i) k' \<longleftrightarrow> bitmap_test_bit (of_nat i) k"
  shows "allocated_frames k' = allocated_frames k"
  using assms by (auto simp: in_allocated_frames frame_count_def)

lemma frame_eq_iff:
  "a < frame_count k \<Longrightarrow> b < frame_count k \<Longrightarrow> (of_nat a :: u32) = of_nat b \<longleftrightarrow> a = b"
  unfolding frame_count_def
  by (rule of_nat_u32_eq_iff) (auto intro: less_trans [OF _ unat_less_2p32])

lemma allocated_frames_set_bit:
  "i < frame_count k \<Longrightarrow>
     allocated_frames (bitmap_set_bit (of_nat i) k) = insert i (allocated_frames k)"
  using frame_eq_iff [of _ k i]
  by (auto simp: in_allocated_frames bitmap_test_set frame_count_def)

lemma allocated_frames_clear_bit:
  "i < frame_count k \<Longrightarrow>
     allocated_frames (bitmap_clear_bit (of_nat i) k) = allocated_frames k - {i}"
  using frame_eq_iff [of _ k i]
  by (auto simp: in_allocated_frames bitmap_test_clear frame_count_def)

lemma allocated_frames_pmm_upd [simp]:
  "bitmap p = bitmap (pmm_state k) \<Longrightarrow> total_pages p = total_pages (pmm_state k) \<Longrightarrow>
     allocated_frames (k\<lparr>pmm_state := p\<rparr>) = allocated_frames k"
  by (simp add: allocated_frames_def)

lemma find_free_page_first:
  assumes inv: "frame_count k \<le> 0x100000" and i: "i < frame_count k" "i \<notin> allocated_frames k"
    and least: "\<forall>j<i. j \<in> allocated_frames k"
  shows "find_free_page k = of_nat i"
proof -
  let ?n = "total_pages (pmm_state k)"
  have lt: "of_nat i < ?n" and free: "\<not> bitmap_test_bit (of_nat i) k"
    using i inv by (auto simp: word_less_nat_alt frame_count_def in_allocated_frames)
  have below: "bitmap_test_bit l k" if "l < of_nat i" for l :: u32
  proof -
    have "unat l < i" using that i inv by (simp add: word_less_nat_alt)
    with least have "unat l \<in> allocated_frames k" by blast
    then show ?thesis by (simp add: in_allocated_frames)
  qed
  obtain j where j: "find_free_page_from 0 k = j" "\<not> bitmap_test_bit j k"
      "\<And>l. l < j \<Longrightarrow> bitmap_test_bit l k"
    using find_free_page_from_cases [of 0 k] lt free by auto
  have "j = of_nat i"
    using j(2,3) free below by (metis linorder_neqE)
  with j(1) show ?thesis by (simp add: find_free_page_def)
qed

lemma find_free_page_none:
  assumes "allocated_frames k = {..<frame_count k}"
  shows "find_free_page k = 0xFFFFFFFF"
proof -
  have "bitmap_test_bit l k" if "l < total_pages (pmm_state k)" for l
  proof -
    have "unat l < frame_count k" using that by (simp add: word_less_nat_alt frame_count_def)
    then have "unat l \<in> allocated_frames k" using assms by simp
    then show ?thesis by (simp add: in_allocated_frames)
  qed
  then show ?thesis
    using find_free_page_from_cases [of 0 k] by (auto simp: find_free_page_def)
qed

section \<open>The operations on the abstraction\<close>

lemma pmm_alloc_full:
  "allocated_frames k = {..<frame_count k} \<Longrightarrow> pmm_alloc k = (0, k)"
  by (simp add: pmm_alloc_def find_free_page_none Let_def)

lemma frame_addr_bound:
  "i < 0x100000 \<Longrightarrow> unat (of_nat (i * 4096) :: u32) = i * 4096"
  by (rule unat_of_nat_u32) simp

lemma pmm_alloc_step:
  assumes inv: "pmm_inv k" and i: "i < frame_count k" "i \<notin> allocated_frames k"
    and least: "\<forall>j<i. j \<in> allocated_frames k"
  shows "pmm_alloc k =
     (of_nat (i * 4096),
      (bitmap_set_bit (of_nat i) k)\<lparr>pmm_state := (pmm_state k)
         \<lparr>allocated_pages := allocated_pages (pmm_state k) + 1\<rparr>\<rparr>)"
proof -
  have fc: "frame_count k \<le> 0x100000" using inv by (simp add: pmm_inv_def)
  then have ne: "(of_nat i :: u32) \<noteq> 0xFFFFFFFF"
    using i(1) of_nat_u32_eq_iff [of i "0xFFFFFFFF"] by simp
  show ?thesis
    using find_free_page_first [OF fc i least] ne
    by (simp add: pmm_alloc_def Let_def PAGE_SIZE_def)
qed

lemma pmm_free_step:
  assumes inv: "pmm_inv k" and i: "i \<in> allocated_frames k"
  shows "pmm_free (of_nat (i * 4096)) k =
     (0, (bitmap_clear_bit (of_nat i) k)\<lparr>pmm_state := (pmm_state k)
           \<lparr>allocated_pages := allocated_pages (pmm_state k) - 1\<rparr>\<rparr>)"
proof -
  have lt: "i < frame_count k" "i < 0x100000" and set: "bitmap_test_bit (of_nat i) k"
    using inv i by (auto simp: pmm_inv_def in_allocated_frames)
  let ?a = "of_nat (i * 4096) :: u32"
  have a: "unat ?a = i * 4096" by (rule frame_addr_bound [OF lt(2)])
  have "?a mod 4096 = 0" "?a div 4096 = of_nat i"
    using a lt(2) by (simp_all add: word_unat_eq_iff unat_mod unat_div del: of_nat_mult)
  moreover have "of_nat i < total_pages (pmm_state k)"
    using lt by (simp add: word_less_nat_alt frame_count_def)
  ultimately show ?thesis
    using set by (simp add: pmm_free_def PAGE_SIZE_def Let_def del: of_nat_mult)
qed

lemma pmm_free_cases:
  "pmm_free addr k = (-1, k) \<or>
   (addr mod 4096 = 0 \<and> addr div 4096 < total_pages (pmm_state k)
      \<and> bitmap_test_bit (addr div 4096) k)"
  by (auto simp: pmm_free_def PAGE_SIZE_def Let_def not_le)

lemma pmm_free_fail:
  assumes inv: "pmm_inv k" and no: "\<And>i. i \<in> allocated_frames k \<Longrightarrow> addr \<noteq> of_nat (i * 4096)"
  shows "pmm_free addr k = (-1, k)"
proof (rule ccontr)
  assume "pmm_free addr k \<noteq> (-1, k)"
  then have addr: "addr mod 4096 = 0" "addr div 4096 < total_pages (pmm_state k)"
      "bitmap_test_bit (addr div 4096) k"
    using pmm_free_cases by blast+
  let ?i = "unat (addr div 4096)"
  have "?i \<in> allocated_frames k"
    using addr(2,3) by (simp add: in_allocated_frames frame_count_def word_less_nat_alt)
  moreover have "addr = (addr div 4096) * 4096"
    using addr(1) by (metis add.right_neutral div_mult_mod_eq)
  then have "addr = of_nat (?i * 4096)" by simp
  ultimately show False using no by blast
qed

lemma card_allocated_bound: "card (allocated_frames k) \<le> frame_count k"
  using card_mono [OF _ allocated_frames_bound] by simp

lemma pmm_alloc_abs:
  assumes inv: "pmm_inv k" and i: "i < frame_count k" "i \<notin> allocated_frames k"
    and least: "\<forall>j<i. j \<in> allocated_frames k"
  shows "fst (pmm_alloc k) = of_nat (i * 4096)"
    and "allocated_frames (snd (pmm_alloc k)) = insert i (allocated_frames k)"
    and "frame_count (snd (pmm_alloc k)) = frame_count k"
    and "pmm_inv (snd (pmm_alloc k))"
proof -
  note eq = pmm_alloc_step [OF assms]
  show "fst (pmm_alloc k) = of_nat (i * 4096)" by (simp add: eq)
  show frames: "allocated_frames (snd (pmm_alloc k)) = insert i (allocated_frames k)"
    using i by (simp add: eq allocated_frames_set_bit)
  show fc: "frame_count (snd (pmm_alloc k)) = frame_count k"
    by (simp add: eq frame_count_def)
  have "card (allocated_frames (snd (pmm_alloc k))) \<le> frame_count k"
    using card_allocated_bound [of "snd (pmm_alloc k)"] by (simp add: fc)
  then have "Suc (card (allocated_frames k)) \<le> 0x100000"
    using i inv by (simp add: frames pmm_inv_def)
  then have "unat (allocated_pages (pmm_state k) + 1) = Suc (card (allocated_frames k))"
    using inv by (simp add: pmm_inv_def unat_word_ariths)
  then show "pmm_inv (snd (pmm_alloc k))"
    using inv i frames by (simp add: pmm_inv_def eq frame_count_def)
qed

lemma pmm_free_abs:
  assumes inv: "pmm_inv k" and i: "i \<in> allocated_frames k"
  shows "fst (pmm_free (of_nat (i * 4096)) k) = 0"
    and "allocated_frames (snd (pmm_free (of_nat (i * 4096)) k)) = allocated_frames k - {i}"
    and "frame_count (snd (pmm_free (of_nat (i * 4096)) k)) = frame_count k"
    and "pmm_inv (snd (pmm_free (of_nat (i * 4096)) k))"
proof -
  note eq = pmm_free_step [OF assms]
  show "fst (pmm_free (of_nat (i * 4096)) k) = 0" by (simp add: eq del: of_nat_mult)
  show frames: "allocated_frames (snd (pmm_free (of_nat (i * 4096)) k)) = allocated_frames k - {i}"
    using i by (simp add: eq allocated_frames_clear_bit in_allocated_frames del: of_nat_mult)
  show "frame_count (snd (pmm_free (of_nat (i * 4096)) k)) = frame_count k"
    by (simp add: eq frame_count_def del: of_nat_mult)
  have pos: "0 < card (allocated_frames k)" using i by (auto simp: card_gt_0_iff)
  then have "1 \<le> allocated_pages (pmm_state k)"
    using inv by (simp add: pmm_inv_def word_le_nat_alt)
  then have "unat (allocated_pages (pmm_state k) - 1) = card (allocated_frames k) - 1"
    using inv by (simp add: pmm_inv_def unat_sub)
  then show "pmm_inv (snd (pmm_free (of_nat (i * 4096)) k))"
    using inv i frames
    by (simp add: pmm_inv_def eq frame_count_def del: of_nat_mult)
qed

section \<open>The contract of a frame allocator\<close>

text \<open>
  What the paging and process code relies on: \<open>alloc\<close> hands out the lowest frame that is
  not taken and fails with 0 when all are, \<open>free\<close> takes back exactly the frames handed
  out and refuses everything else without a change.
\<close>

locale frame_allocator =
  fixes alloc :: "'s \<Rightarrow> u32 \<times> 's"
    and free :: "u32 \<Rightarrow> 's \<Rightarrow> int \<times> 's"
    and frames :: "'s \<Rightarrow> nat set"
    and capacity :: "'s \<Rightarrow> nat"
    and invar :: "'s \<Rightarrow> bool"
  assumes frames_bound: "frames s \<subseteq> {..<capacity s}"
    and capacity_bound: "invar s \<Longrightarrow> capacity s \<le> 0x100000"
    and alloc_full: "frames s = {..<capacity s} \<Longrightarrow> alloc s = (0, s)"
    and alloc_addr: "invar s \<Longrightarrow> i < capacity s \<Longrightarrow> i \<notin> frames s \<Longrightarrow>
      (\<forall>j<i. j \<in> frames s) \<Longrightarrow> fst (alloc s) = of_nat (i * 4096)"
    and alloc_frames: "invar s \<Longrightarrow> i < capacity s \<Longrightarrow> i \<notin> frames s \<Longrightarrow>
      (\<forall>j<i. j \<in> frames s) \<Longrightarrow> frames (snd (alloc s)) = insert i (frames s)"
    and alloc_capacity: "invar s \<Longrightarrow> capacity (snd (alloc s)) = capacity s"
    and alloc_invar: "invar s \<Longrightarrow> invar (snd (alloc s))"
    and free_ok: "invar s \<Longrightarrow> i \<in> frames s \<Longrightarrow> fst (free (of_nat (i * 4096)) s) = 0"
    and free_frames: "invar s \<Longrightarrow> i \<in> frames s \<Longrightarrow>
      frames (snd (free (of_nat (i * 4096)) s)) = frames s - {i}"
    and free_fail: "invar s \<Longrightarrow> (\<And>i. i \<in> frames s \<Longrightarrow> a \<noteq> of_nat (i * 4096)) \<Longrightarrow>
      free a s = (-1, s)"
    and free_capacity: "invar s \<Longrightarrow> capacity (snd (free a s)) = capacity s"
    and free_invar: "invar s \<Longrightarrow> invar (snd (free a s))"
begin

lemma alloc_nonzero:
  assumes "invar s" and "fst (alloc s) \<noteq> 0"
  obtains i where "i < capacity s" "i \<notin> frames s" "fst (alloc s) = of_nat (i * 4096)"
    "frames (snd (alloc s)) = insert i (frames s)"
proof -
  have "frames s \<noteq> {..<capacity s}" using assms(2) alloc_full [of s] by (metis fst_conv)
  with frames_bound obtain i
    where i: "i < capacity s" "i \<notin> frames s" "\<forall>j<i. j \<in> frames s"
    by (rule least_missing)
  from that [OF i(1,2) alloc_addr [OF assms(1) i] alloc_frames [OF assms(1) i]]
  show ?thesis .
qed

lemma frame_addr_inj:
  assumes "invar s" "i < capacity s" "j < capacity s" "(of_nat (i * 4096) :: u32) = of_nat (j * 4096)"
  shows "i = j"
proof -
  have "i * 4096 < 4294967296" "j * 4096 < 4294967296"
    using assms(2,3) capacity_bound [OF assms(1)] by auto
  with assms(4) have "i * 4096 = j * 4096" by (simp only: of_nat_u32_eq_iff)
  then show ?thesis by simp
qed

text \<open>A frame in use is never handed out again, and is its own page.\<close>

lemma alloc_fresh:
  assumes "invar s" "fst (alloc s) \<noteq> 0" "i \<in> frames s"
  shows "fst (alloc s) \<noteq> of_nat (i * 4096)"
proof
  assume eq: "fst (alloc s) = of_nat (i * 4096)"
  obtain j where j: "j < capacity s" "j \<notin> frames s" "fst (alloc s) = of_nat (j * 4096)"
    by (rule alloc_nonzero [OF assms(1,2)])
  have "i < capacity s" using assms(3) frames_bound [of s] by auto
  then have "i = j" by (rule frame_addr_inj [OF assms(1) _ j(1)]) (use eq j(3) in simp)
  then show False using assms(3) j(2) by simp
qed

lemma alloc_twice_distinct:
  assumes "invar s" "fst (alloc s) \<noteq> 0" "fst (alloc (snd (alloc s))) \<noteq> 0"
  shows "fst (alloc (snd (alloc s))) \<noteq> fst (alloc s)"
proof -
  obtain i where "fst (alloc s) = of_nat (i * 4096)" "i \<in> frames (snd (alloc s))"
    using alloc_nonzero [OF assms(1,2)] by (metis insertI1)
  then show ?thesis using alloc_fresh [OF alloc_invar [OF assms(1)] assms(3)] by metis
qed

lemma alloc_then_free:
  assumes "invar s" "fst (alloc s) \<noteq> 0"
  shows "fst (free (fst (alloc s)) (snd (alloc s))) = 0"
    and "frames (snd (free (fst (alloc s)) (snd (alloc s)))) = frames s"
proof -
  obtain i where i: "i \<notin> frames s" "fst (alloc s) = of_nat (i * 4096)"
      "frames (snd (alloc s)) = insert i (frames s)"
    by (rule alloc_nonzero [OF assms])
  note inv' = alloc_invar [OF assms(1)]
  show "fst (free (fst (alloc s)) (snd (alloc s))) = 0"
    using free_ok [OF inv', of i] i by simp
  show "frames (snd (free (fst (alloc s)) (snd (alloc s)))) = frames s"
    using free_frames [OF inv', of i] i by simp
qed

text \<open>Freeing a frame twice is refused.\<close>

lemma free_twice:
  assumes "invar s" "i \<in> frames s"
  shows "fst (free (of_nat (i * 4096)) (snd (free (of_nat (i * 4096)) s))) = -1"
proof -
  let ?t = "snd (free (of_nat (i * 4096)) s)"
  have "(of_nat (i * 4096) :: u32) \<noteq> of_nat (j * 4096)" if "j \<in> frames ?t" for j
  proof
    assume eq: "(of_nat (i * 4096) :: u32) = of_nat (j * 4096)"
    have "j \<in> frames s" "j \<noteq> i" using that free_frames [OF assms] by auto
    then show False
      using frame_addr_inj [OF assms(1) _ _ eq] frames_bound [of s] assms(2) by (metis lessThan_iff subsetD)
  qed
  then show ?thesis
    by (simp add: free_fail [OF free_invar [OF assms(1)]])
qed

text \<open>Running \<open>n\<close> allocations from a state in which nothing is taken hands out the frames
  \<open>0, \<dots>, n - 1\<close> in order.\<close>

lemma alloc_sequence:
  assumes "invar s" "frames s = {}" "n \<le> capacity s"
  shows "frames (((\<lambda>t. snd (alloc t)) ^^ n) s) = {..<n} \<and> invar (((\<lambda>t. snd (alloc t)) ^^ n) s)
      \<and> capacity (((\<lambda>t. snd (alloc t)) ^^ n) s) = capacity s"
  using assms(3)
proof (induction n)
  case 0
  then show ?case using assms by simp
next
  case (Suc n)
  define t where "t = ((\<lambda>t. snd (alloc t)) ^^ n) s"
  have t: "frames t = {..<n}" "invar t" "capacity t = capacity s"
    using Suc by (simp_all add: t_def)
  have "frames (snd (alloc t)) = insert n (frames t)"
    by (rule alloc_frames) (use t Suc.prems in auto)
  moreover have "((\<lambda>t. snd (alloc t)) ^^ Suc n) s = snd (alloc t)" by (simp add: t_def)
  ultimately show ?case
    using t alloc_invar [of t] alloc_capacity [of t] by (simp only: lessThan_Suc)
qed

lemma alloc_sequence_addr:
  assumes "invar s" "frames s = {}" "n < capacity s"
  shows "fst (alloc (((\<lambda>t. snd (alloc t)) ^^ n) s)) = of_nat (n * 4096)"
  by (rule alloc_addr) (use assms alloc_sequence [OF assms(1,2), of n] in auto)

end

lemma pmm_alloc_keeps:
  assumes "pmm_inv k"
  shows "pmm_inv (snd (pmm_alloc k)) \<and> frame_count (snd (pmm_alloc k)) = frame_count k"
proof (cases "allocated_frames k = {..<frame_count k}")
  case True
  then show ?thesis using assms by (simp add: pmm_alloc_full)
next
  case False
  with allocated_frames_bound obtain i
    where i: "i < frame_count k" "i \<notin> allocated_frames k" "\<forall>j<i. j \<in> allocated_frames k"
    by (rule least_missing)
  then show ?thesis using pmm_alloc_abs(3,4) [OF assms i] by blast
qed

lemma pmm_free_keeps:
  assumes "pmm_inv k"
  shows "pmm_inv (snd (pmm_free a k)) \<and> frame_count (snd (pmm_free a k)) = frame_count k"
proof (cases "\<exists>i\<in>allocated_frames k. a = of_nat (i * 4096)")
  case True
  then show ?thesis using pmm_free_abs(3,4) [OF assms] by blast
next
  case False
  then have "pmm_free a k = (-1, k)" using pmm_free_fail [OF assms] by blast
  then show ?thesis using assms by simp
qed

interpretation pmm: frame_allocator pmm_alloc pmm_free allocated_frames frame_count pmm_inv
proof
  show "allocated_frames k \<subseteq> {..<frame_count k}" for k by (rule allocated_frames_bound)
  show "pmm_inv k \<Longrightarrow> frame_count k \<le> 0x100000" for k by (simp add: pmm_inv_def)
  show "allocated_frames k = {..<frame_count k} \<Longrightarrow> pmm_alloc k = (0, k)" for k
    by (rule pmm_alloc_full)
  show "pmm_free a k = (-1, k)"
    if "pmm_inv k" "\<And>i. i \<in> allocated_frames k \<Longrightarrow> a \<noteq> of_nat (i * 4096)" for a k
    using that by (rule pmm_free_fail)
qed (simp_all add: pmm_alloc_abs pmm_free_abs pmm_alloc_keeps pmm_free_keeps del: of_nat_mult)

section \<open>Initialisation\<close>

lemma pmm_init_fst [simp]: "fst (pmm_init n k) = 1"
  by (simp add: pmm_init_def Let_def)

lemma unat_div_page: "unat (n div PAGE_SIZE) = unat n div 4096"
  by (simp add: PAGE_SIZE_def unat_div)

lemma unat_div_page_bound: "unat (n div PAGE_SIZE) < 0x100000"
proof -
  have "unat n div 4096 < 0x100000" by (rule less_mult_imp_div_less) simp
  then show ?thesis by (simp add: unat_div_page)
qed

lemma unat_bitmap_size:
  assumes "unat t \<le> 0x100000"
  shows "unat ((t + 7) div 8 :: u32) = (unat t + 7) div 8"
  using assms by (simp add: unat_div unat_word_ariths)

lemma pmm_init_zeroed:
  assumes "i < unat (n div PAGE_SIZE)"
  shows "\<not> bitmap_test_bit (of_nat i) (snd (pmm_init n k))"
proof -
  let ?t = "n div PAGE_SIZE" and ?base = "KERNEL_VIRT_BASE + 0x200000"
  let ?s = "unat ((?t + 7) div 8)"
  have i: "i < 0x100000" using assms unat_div_page_bound [of n] by simp
  have idx: "(of_nat i :: u32) div 8 = of_nat (i div 8)"
    using i by (simp add: word_unat_eq_iff unat_div)
  have s: "?s = (unat ?t + 7) div 8"
    using unat_div_page_bound [of n] by (intro unat_bitmap_size) simp
  then have in_range: "i div 8 < ?s" using assms by simp
  have "inj_on (\<lambda>i. ?base + (of_nat i :: u32)) (set [0..<?s])"
    by (rule inj_onI) (use unat_div_page_bound [of n] s in \<open>simp add: of_nat_u32_eq_iff\<close>)
  from fold_fun_upd_in [OF this, of "i div 8"] in_range
  have "mem (snd (pmm_init n k)) (?base + of_nat (i div 8)) = 0"
    by (simp add: pmm_init_def Let_def)
  then show ?thesis
    by (simp add: bitmap_test_bit_iff bitmap_byte_def idx) (simp add: pmm_init_def Let_def)
qed

lemma pmm_init_frames: "allocated_frames (snd (pmm_init n k)) = {}"
proof -
  have "frame_count (snd (pmm_init n k)) = unat (n div PAGE_SIZE)"
    by (simp add: frame_count_def pmm_init_def Let_def)
  then show ?thesis using pmm_init_zeroed by (auto simp: in_allocated_frames)
qed

lemma pmm_init_count: "frame_count (snd (pmm_init n k)) = unat n div 4096"
  by (simp add: frame_count_def pmm_init_def Let_def unat_div_page)

lemma pmm_init_inv: "pmm_inv (snd (pmm_init n k))"
  using pmm_init_frames [of n k] unat_div_page_bound [of n]
  by (simp add: pmm_inv_def pmm_init_count unat_div_page)
     (simp add: pmm_init_def Let_def)

section \<open>Where the code writes\<close>

text \<open>The bitmap region, and that allocation and release touch one byte of it.\<close>

definition in_bitmap :: "u32 \<Rightarrow> kernel \<Rightarrow> bool" where
  "in_bitmap a k \<longleftrightarrow> a - bitmap (pmm_state k) < bitmap_size (pmm_state k)"

lemma bitmap_byte_in_bitmap:
  assumes "pmm_inv k" and "b < total_pages (pmm_state k)"
  shows "in_bitmap (bitmap_byte b k) k"
proof -
  have t: "unat (total_pages (pmm_state k)) \<le> 0x100000"
    using assms(1) by (simp add: pmm_inv_def frame_count_def)
  have "unat (b div 8) < unat ((total_pages (pmm_state k) + 7) div 8)"
    unfolding unat_bitmap_size [OF t]
    using assms(2) by (simp add: unat_div word_less_nat_alt)
  then show ?thesis
    using assms(1) by (simp add: in_bitmap_def bitmap_byte_def pmm_inv_def word_less_nat_alt)
qed

lemma pmm_alloc_writes:
  assumes "pmm_inv k" and "\<not> in_bitmap a k"
  shows "mem (snd (pmm_alloc k)) a = mem k a"
proof (cases "find_free_page k = 0xFFFFFFFF")
  case True
  then show ?thesis by (simp add: pmm_alloc_def Let_def)
next
  case False
  then have "find_free_page k < total_pages (pmm_state k)"
    using find_free_page_from_cases [of 0 k] by (auto simp: find_free_page_def)
  then have "a \<noteq> bitmap_byte (find_free_page k) k"
    using bitmap_byte_in_bitmap [OF assms(1)] assms(2) by auto
  then show ?thesis using False by (simp add: pmm_alloc_def Let_def bitmap_set_bit_def)
qed

lemma pmm_free_writes:
  assumes "pmm_inv k" and "\<not> in_bitmap a k"
  shows "mem (snd (pmm_free addr k)) a = mem k a"
proof (cases "pmm_free addr k = (-1, k)")
  case False
  then have lt: "addr div PAGE_SIZE < total_pages (pmm_state k)"
    using pmm_free_cases [of addr k] by (simp add: PAGE_SIZE_def)
  then have "a \<noteq> bitmap_byte (addr div PAGE_SIZE) k"
    using bitmap_byte_in_bitmap [OF assms(1)] assms(2) by auto
  then show ?thesis by (simp add: pmm_free_def Let_def bitmap_clear_bit_def)
qed simp

text \<open>The bitmap is all the manager sees of memory.\<close>

lemma pmm_cong:
  assumes "pmm_inv k" and "pmm_state k' = pmm_state k"
    and "\<And>a. in_bitmap a k \<Longrightarrow> mem k' a = mem k a"
  shows "pmm_inv k'" and "allocated_frames k' = allocated_frames k" and "frame_count k' = frame_count k"
proof -
  show fc: "frame_count k' = frame_count k" by (simp add: frame_count_def assms(2))
  have "bitmap_test_bit (of_nat i) k' = bitmap_test_bit (of_nat i) k" if "i < frame_count k" for i
  proof -
    have "(of_nat i :: u32) < total_pages (pmm_state k)"
      using that less_trans [OF _ unat_less_2p32, of i "total_pages (pmm_state k)"]
      by (simp add: frame_count_def word_less_nat_alt)
    then have "mem k' (bitmap_byte (of_nat i) k) = mem k (bitmap_byte (of_nat i) k)"
      using bitmap_byte_in_bitmap [OF assms(1)] assms(3) by blast
    then show ?thesis by (simp add: bitmap_test_bit_iff bitmap_byte_def assms(2))
  qed
  then show af: "allocated_frames k' = allocated_frames k"
    by (auto simp: in_allocated_frames fc)
  show "pmm_inv k'" using assms(1) by (simp add: pmm_inv_def assms(2) fc af)
qed

text \<open>The bitmap lies at 0xC0200000 and above: pages below are not part of it.\<close>

lemma in_bitmap_iff:
  assumes "pmm_inv k"
  shows "in_bitmap a k \<longleftrightarrow> 0xC0200000 \<le> unat a \<and> unat a < 0xC0200000 + (frame_count k + 7) div 8"
proof -
  have t: "unat (total_pages (pmm_state k)) \<le> 0x100000" and n: "frame_count k \<le> 0x100000"
    using assms by (simp_all add: pmm_inv_def frame_count_def)
  then have s: "unat (bitmap_size (pmm_state k)) = (frame_count k + 7) div 8"
    using assms by (simp add: pmm_inv_def unat_bitmap_size frame_count_def)
  have "unat (a - 0xC0200000) =
      (if 0xC0200000 \<le> unat a then unat a - 0xC0200000 else unat a + 4294967296 - 0xC0200000)"
    by (simp add: unat_sub_if_size size_word_def word_le_nat_alt)
  moreover have "(frame_count k + 7) div 8 \<le> 0x20000" using n by simp
  moreover have "bitmap (pmm_state k) = 0xC0200000" using assms by (simp add: pmm_inv_def KERNEL_VIRT_BASE_def)
  ultimately show ?thesis by (auto simp: in_bitmap_def word_less_nat_alt s)
qed

lemma below_bitmap:
  assumes "pmm_inv k" and "a < 0xC0200000"
  shows "\<not> in_bitmap a k"
  using assms by (simp add: in_bitmap_iff word_less_nat_alt)

lemma above_bitmap:
  assumes "pmm_inv k" and "0xC0220000 \<le> a"
  shows "\<not> in_bitmap a k"
proof -
  have "frame_count k \<le> 0x100000" using assms(1) by (simp add: pmm_inv_def)
  then have "(frame_count k + 7) div 8 \<le> 0x20000" by simp
  then show ?thesis using assms by (simp add: in_bitmap_iff word_le_nat_alt)
qed

lemma pmm_alloc_frame:
  "\<exists>m p. snd (pmm_alloc k) = k\<lparr>mem := m, pmm_state := p\<rparr>"
proof -
  have "k = k\<lparr>mem := mem k, pmm_state := pmm_state k\<rparr>" by simp
  moreover have "snd (pmm_alloc k) = k \<or> (\<exists>m p. snd (pmm_alloc k) = k\<lparr>mem := m, pmm_state := p\<rparr>)"
    by (auto simp: pmm_alloc_def Let_def bitmap_set_bit_def)
  ultimately show ?thesis by metis
qed

lemma pmm_alloc_rest [frame_simps]:
  "kbd_state (snd (pmm_alloc k)) = kbd_state k" "vga_state (snd (pmm_alloc k)) = vga_state k"
  "process_table (snd (pmm_alloc k)) = process_table k" "current_process (snd (pmm_alloc k)) = current_process k"
  "current_pid (snd (pmm_alloc k)) = current_pid k" "next_pid (snd (pmm_alloc k)) = next_pid k"
  using pmm_alloc_frame [of k] by auto

lemma pmm_alloc_heap [frame_simps]: "heap_state (snd (pmm_alloc k)) = heap_state k"
  using pmm_alloc_frame [of k] by auto

text \<open>With frame 0 taken and another frame free, an allocation cannot be mistaken for a failure.\<close>

lemma pmm_alloc_succeeds:
  assumes "pmm_inv k" and "0 \<in> allocated_frames k" and "card (allocated_frames k) < frame_count k"
  shows "fst (pmm_alloc k) \<noteq> 0" and "card (allocated_frames (snd (pmm_alloc k))) = Suc (card (allocated_frames k))"
    and "0 \<in> allocated_frames (snd (pmm_alloc k))" and "pmm_inv (snd (pmm_alloc k))"
    and "frame_count (snd (pmm_alloc k)) = frame_count k"
proof -
  have "allocated_frames k \<noteq> {..<frame_count k}" using assms(3) by (metis card_lessThan less_irrefl)
  with allocated_frames_bound obtain i
    where i: "i < frame_count k" "i \<notin> allocated_frames k" "\<forall>j<i. j \<in> allocated_frames k"
    by (rule least_missing)
  note a = pmm_alloc_abs [OF assms(1) i]
  have "i \<noteq> 0" using i(2) assms(2) by metis
  moreover have "i < 0x100000" using i(1) assms(1) by (simp add: pmm_inv_def)
  ultimately have "of_nat (i * 4096) \<noteq> (0 :: u32)" using of_nat_u32_eq_iff [of "i * 4096" 0] by simp
  then show "fst (pmm_alloc k) \<noteq> 0" by (simp add: a(1) del: of_nat_mult)
  show "card (allocated_frames (snd (pmm_alloc k))) = Suc (card (allocated_frames k))"
    using i(2) by (simp add: a(2))
  show "0 \<in> allocated_frames (snd (pmm_alloc k))" using assms(2) by (simp add: a(2))
  show "pmm_inv (snd (pmm_alloc k))" "frame_count (snd (pmm_alloc k)) = frame_count k"
    by (rule a)+
qed

lemma pmm_alloc_in_bitmap [simp]: "in_bitmap a (snd (pmm_alloc k)) = in_bitmap a k"
  by (simp add: pmm_alloc_def in_bitmap_def Let_def)

section \<open>Properties\<close>

text \<open>The specification of an allocation on the set of taken frames: the lowest one that is
  not taken, or nothing.\<close>

definition alloc_spec :: "nat \<Rightarrow> nat set \<Rightarrow> nat option \<times> nat set" where
  "alloc_spec n F =
     (case find (\<lambda>i. i \<notin> F) [0..<n] of None \<Rightarrow> (None, F) | Some i \<Rightarrow> (Some i, insert i F))"

lemma alloc_spec_full: "F = {..<n} \<Longrightarrow> alloc_spec n F = (None, F)"
  by (auto simp: alloc_spec_def find_None_iff split: option.split)

lemma alloc_spec_first:
  assumes "i < n" "i \<notin> F" "\<forall>j<i. j \<in> F"
  shows "alloc_spec n F = (Some i, insert i F)"
proof -
  have "find (\<lambda>i. i \<notin> F) [0..<n] = Some i"
    using assms by (auto simp: find_Some_iff intro!: exI [of _ i])
  then show ?thesis by (simp add: alloc_spec_def)
qed

text \<open>C4: \<^verbatim>\<open>pmm_alloc\<close> refines the specification on every branch: it returns the address of
  the lowest free frame and marks exactly that frame, or returns 0 and changes nothing when
  every frame is taken; the invariant of the bitmap and of the counter is kept.\<close>

theorem pmm_alloc_refines_spec:
  assumes "pmm_inv k"
  shows "(case alloc_spec (frame_count k) (allocated_frames k) of
            (None, F) \<Rightarrow> pmm_alloc k = (0, k)
          | (Some i, F) \<Rightarrow> fst (pmm_alloc k) = of_nat (i * 4096)
              \<and> allocated_frames (snd (pmm_alloc k)) = F
              \<and> pmm_get_allocated (snd (pmm_alloc k)) = pmm_get_allocated k + 1)
         \<and> pmm_inv (snd (pmm_alloc k))"
proof (cases "allocated_frames k = {..<frame_count k}")
  case True
  then show ?thesis using assms by (simp add: alloc_spec_full pmm_alloc_full)
next
  case False
  with allocated_frames_bound obtain i
    where i: "i < frame_count k" "i \<notin> allocated_frames k" "\<forall>j<i. j \<in> allocated_frames k"
    by (rule least_missing)
  then show ?thesis
    using pmm_alloc_abs [OF assms i] pmm_alloc_step [OF assms i]
    by (simp add: alloc_spec_first pmm_get_allocated_def)
qed

theorem pmm_alloc_refines_spec_witness:
  "pmm_alloc (snd (pmm_init 0x3000 (boot_kernel (\<lambda>_. 0xFF) (\<lambda>_. 0) (\<lambda>_ _. 0))))
     \<noteq> (0, snd (pmm_init 0x3000 (boot_kernel (\<lambda>_. 0xFF) (\<lambda>_. 0) (\<lambda>_ _. 0))))
   \<and> allocated_frames (snd (pmm_alloc
       (snd (pmm_init 0x3000 (boot_kernel (\<lambda>_. 0xFF) (\<lambda>_. 0) (\<lambda>_ _. 0)))))) = {0}"
proof -
  let ?k = "snd (pmm_init 0x3000 (boot_kernel (\<lambda>_. 0xFF) (\<lambda>_. 0) (\<lambda>_ _. 0)))"
  have "alloc_spec (frame_count ?k) (allocated_frames ?k) = (Some 0, {0})"
    by (simp add: pmm_init_count pmm_init_frames alloc_spec_first)
  then have F: "allocated_frames (snd (pmm_alloc ?k)) = {0}"
    using pmm_alloc_refines_spec [of ?k, OF pmm_init_inv] by simp
  moreover have "allocated_frames ?k = {}" by (rule pmm_init_frames)
  ultimately show ?thesis by (metis insert_not_empty snd_conv)
qed

text \<open>C17: \<^verbatim>\<open>pmm_free\<close> accepts exactly the addresses of frames that are allocated: such a frame
  becomes free again and the call returns 0; every other address (unaligned, out of range,
  already free) is refused with -1 and no change. The invariant is kept.\<close>

theorem pmm_free_exact:
  assumes "pmm_inv k"
  shows "(if a \<in> (\<lambda>i. of_nat (i * 4096)) ` allocated_frames k
          then fst (pmm_free a k) = 0
             \<and> allocated_frames (snd (pmm_free a k)) = allocated_frames k - {unat a div 4096}
             \<and> pmm_get_allocated (snd (pmm_free a k)) = pmm_get_allocated k - 1
          else pmm_free a k = (-1, k))
         \<and> pmm_inv (snd (pmm_free a k))"
proof (cases "a \<in> (\<lambda>i. of_nat (i * 4096)) ` allocated_frames k")
  case True
  then obtain i where a: "a = of_nat (i * 4096)" and i: "i \<in> allocated_frames k" by auto
  have "i < 0x100000" using i assms by (auto simp: in_allocated_frames pmm_inv_def)
  then have "unat a div 4096 = i" unfolding a by (simp add: frame_addr_bound del: of_nat_mult)
  moreover have "pmm_get_allocated (snd (pmm_free a k)) = pmm_get_allocated k - 1"
    by (simp add: pmm_free_step [OF assms i] a pmm_get_allocated_def del: of_nat_mult)
  ultimately show ?thesis
    using pmm_free_abs [OF assms i] True by (simp add: a del: of_nat_mult)
next
  case False
  then have "pmm_free a k = (-1, k)" by (intro pmm_free_fail [OF assms]) auto
  then show ?thesis using False assms by simp
qed

theorem pmm_free_exact_witness:
  "let k = snd (pmm_init 0x3000 (boot_kernel (\<lambda>_. 0xFF) (\<lambda>_. 0) (\<lambda>_ _. 0)))
   in pmm_free 0x1000 k = (-1, k)"
  using pmm_free_exact [of "snd (pmm_init 0x3000 (boot_kernel (\<lambda>_. 0xFF) (\<lambda>_. 0) (\<lambda>_ _. 0)))" "0x1000",
    OF pmm_init_inv]
  by (simp add: pmm_init_frames Let_def)



text \<open>Starting from \<^verbatim>\<open>pmm_init\<close>, the allocation after \<open>n\<close> others returns frame \<open>n\<close>
  (as long as there are that many frames): every frame is handed out, the first one at address 0.\<close>

lemma pmm_alloc_in_order:
  assumes "n < unat total_memory div 4096"
  shows "fst (pmm_alloc (((\<lambda>t. snd (pmm_alloc t)) ^^ n) (snd (pmm_init total_memory k))))
           = of_nat (n * 4096)"
  by (rule pmm.alloc_sequence_addr)
     (use assms in \<open>simp_all add: pmm_init_inv pmm_init_frames pmm_init_count\<close>)

text \<open>Applied to the 128 MB \<^verbatim>\<open>kmain\<close> passes: the 257th allocation is the frame at 1 MB where
  the linker script loads the kernel, the 513th the frame behind the bitmap itself.\<close>

lemma pmm_alloc_in_order_witness:
  "fst (pmm_alloc (((\<lambda>t. snd (pmm_alloc t)) ^^ 512)
      (snd (pmm_init (128 * 1024 * 1024) (boot_kernel (\<lambda>_. 0xFF) (\<lambda>_. 0) (\<lambda>_ _. 0))))))
     = VIRT_TO_PHYS (KERNEL_VIRT_BASE + 0x200000)
   \<and> fst (pmm_alloc (((\<lambda>t. snd (pmm_alloc t)) ^^ 256)
      (snd (pmm_init (128 * 1024 * 1024) (boot_kernel (\<lambda>_. 0xFF) (\<lambda>_. 0) (\<lambda>_ _. 0))))))
     = 0x100000"
  using pmm_alloc_in_order [of 512 "128 * 1024 * 1024"] pmm_alloc_in_order [of 256 "128 * 1024 * 1024"]
  by (simp add: VIRT_TO_PHYS_def KERNEL_VIRT_BASE_def)

text \<open>After \<^verbatim>\<open>pmm_init\<close> of at least one frame, the first \<^verbatim>\<open>pmm_alloc\<close> returns 0, the
  value that also means that no frame is free, although it did mark frame 0 as allocated: a
  caller that tests for 0 treats the success as a failure and frame 0 is lost.\<close>

lemma pmm_first_alloc_is_zero:
  assumes "4096 \<le> total_memory"
  shows "let (a, k1) = pmm_alloc (snd (pmm_init total_memory k))
         in a = 0 \<and> allocated_frames k1 = {0} \<and> pmm_get_allocated k1 = 1"
proof -
  let ?k = "snd (pmm_init total_memory k)"
  have "0 < unat total_memory div 4096"
    using assms by (simp add: word_le_nat_alt div_greater_zero_iff)
  then have i: "0 < frame_count ?k" "0 \<notin> allocated_frames ?k" "\<forall>j<0. j \<in> allocated_frames ?k"
    by (simp_all add: pmm_init_count pmm_init_frames)
  show ?thesis
    using pmm_alloc_abs(1,2) [OF pmm_init_inv i] pmm_alloc_step [OF pmm_init_inv i]
    by (simp add: case_prod_unfold Let_def pmm_init_frames pmm_get_allocated_def)
       (simp add: pmm_init_def Let_def)
qed

lemma pmm_first_alloc_is_zero_witness:
  "fst (pmm_alloc (snd (pmm_init (128 * 1024 * 1024) (boot_kernel (\<lambda>_. 0xFF) (\<lambda>_. 0) (\<lambda>_ _. 0))))) = 0"
  using pmm_first_alloc_is_zero [of "128 * 1024 * 1024" "boot_kernel (\<lambda>_. 0xFF) (\<lambda>_. 0) (\<lambda>_ _. 0)"]
  by (simp add: case_prod_unfold Let_def)

end
