(* ===== verification/Vmm.thy ===== *)
theory Vmm
  imports Pmm
begin

text \<open>
  The virtual memory manager, \<^verbatim>\<open>src/kernel/mm/vmm.c\<close>: the kernel page directory and its four
  page tables, which lie in memory at the addresses the linker gives them (parameter
  \<open>layout\<close>), and the functions that edit them. What the tables mean is stated by the page
  walk of the 32-bit paging hardware, \<open>mmu_translate\<close>; the lemmas relate every function to
  the translation it leaves behind. The kernel is linked at its physical address, so the
  tables are read and written at the addresses the page directory holds.
\<close>

section \<open>The code\<close>

definition PD_SIZE :: u32 where "PD_SIZE = 1024"

text \<open>The addresses of \<^verbatim>\<open>kernel_page_directory[i]\<close> and of \<^verbatim>\<open>kernel_page_tables[i][j]\<close>; the rows of
  the second follow each other, so that \<open>j\<close> beyond 1023 reaches the next row.\<close>

definition pd_cell :: "layout \<Rightarrow> u32 \<Rightarrow> u32" where
  "pd_cell L i = kernel_page_directory L + 4 * i"

definition pt_cell :: "layout \<Rightarrow> u32 \<Rightarrow> u32 \<Rightarrow> u32" where
  "pt_cell L i j = kernel_page_tables L + 4096 * i + 4 * j"

text \<open>The loops and assignments of \<^verbatim>\<open>vmm_init\<close> that write memory, in their order.\<close>

definition vmm_clear :: "layout \<Rightarrow> memory \<Rightarrow> memory" where
  "vmm_clear L m =
     (let m1 = fold (\<lambda>i m. store32 m (pd_cell L (of_nat i)) 0) [0..<1024] m
      in fold (\<lambda>i m. fold (\<lambda>j m. store32 m (pt_cell L (of_nat i) (of_nat j)) 0) [0..<1024] m) [0..<4] m1)"

definition vmm_identity :: "layout \<Rightarrow> memory \<Rightarrow> memory" where
  "vmm_identity L =
     fold (\<lambda>i m. store32 m (pt_cell L 0 (of_nat i))
             ((of_nat i * PAGE_SIZE) OR (PAGE_PRESENT OR PAGE_WRITE))) [0..<0x1000]"

definition vmm_directory :: "layout \<Rightarrow> memory \<Rightarrow> memory" where
  "vmm_directory L m =
     (let entry = (\<lambda>i. pt_cell L i 0 OR (PAGE_PRESENT OR PAGE_WRITE));
          m1 = store32 m (pd_cell L 0) (entry 0);
          m2 = store32 m1 (pd_cell L 1) (entry 1);
          m3 = store32 m2 (pd_cell L 2) (entry 2);
          m4 = store32 m3 (pd_cell L 3) (entry 3);
          higher_half_index = 768
      in fold (\<lambda>i m. store32 m (pd_cell L (higher_half_index + of_nat i)) (entry (of_nat i))) [0..<4] m4)"

definition vmm_init :: "layout \<Rightarrow> kernel \<Rightarrow> int \<times> kernel" where
  "vmm_init L k =
     (let m1 = vmm_clear L (mem k);
          m2 = vmm_identity L m1;
          m3 = vmm_directory L m2
      in (1, k\<lparr>mem := m3, cr3 := kernel_page_directory L, cr0 := cr0 k OR 0x80000000\<rparr>))"

definition vmm_map :: "layout \<Rightarrow> u32 \<Rightarrow> u32 \<Rightarrow> u32 \<Rightarrow> kernel \<Rightarrow> int \<times> kernel" where
  "vmm_map L virt phys flags k =
     (if virt mod PAGE_SIZE \<noteq> 0 \<or> phys mod PAGE_SIZE \<noteq> 0 then (-1, k)
      else
        let pd_index = drop_bit 22 virt;
            pt_index = drop_bit 12 virt AND 0x3FF
        in if pd_index \<ge> PD_SIZE then (-1, k)
           else
             let pd_entry = load32 (mem k) (pd_cell L pd_index);
                 (page_table, k1) =
                   (if pd_entry AND PAGE_PRESENT = 0
                    then let (new_table, k1) = pmm_alloc k
                         in if new_table = 0 then (None, k1)
                            else (Some new_table,
                                  k1\<lparr>mem := store32 (mem k1) (pd_cell L pd_index)
                                       (new_table OR (PAGE_PRESENT OR PAGE_WRITE))\<rparr>)
                    else (Some (pd_entry AND 0xFFFFF000), k))
             in case page_table of
                  None \<Rightarrow> (-1, k1)
                | Some t \<Rightarrow>
                    (0, k1\<lparr>mem := store32 (mem k1) (t + 4 * pt_index) (phys OR flags),
                          invlpg_log := invlpg_log k1 @ [virt]\<rparr>))"

definition vmm_unmap :: "layout \<Rightarrow> u32 \<Rightarrow> kernel \<Rightarrow> int \<times> kernel" where
  "vmm_unmap L virt k =
     (let pd_index = drop_bit 22 virt;
          pt_index = drop_bit 12 virt AND 0x3FF
      in if load32 (mem k) (pd_cell L pd_index) AND PAGE_PRESENT = 0 then (-1, k)
         else
           let page_table = load32 (mem k) (pd_cell L pd_index) AND 0xFFFFF000
           in if load32 (mem k) (page_table + 4 * pt_index) AND PAGE_PRESENT = 0 then (-1, k)
              else (0, k\<lparr>mem := store32 (mem k) (page_table + 4 * pt_index) 0,
                         invlpg_log := invlpg_log k @ [virt]\<rparr>))"

definition vmm_get_phys :: "layout \<Rightarrow> u32 \<Rightarrow> kernel \<Rightarrow> u32" where
  "vmm_get_phys L virt k =
     (let pd_index = drop_bit 22 virt;
          pt_index = drop_bit 12 virt AND 0x3FF
      in if load32 (mem k) (pd_cell L pd_index) AND PAGE_PRESENT = 0 then 0
         else
           let page_table = load32 (mem k) (pd_cell L pd_index) AND 0xFFFFF000
           in if load32 (mem k) (page_table + 4 * pt_index) AND PAGE_PRESENT = 0 then 0
              else load32 (mem k) (page_table + 4 * pt_index) AND 0xFFFFF000)"

section \<open>Page-aligned addresses and their cells\<close>

lemma page_mask: "(0xFFFFF000 :: u32) = NOT (mask 12)"
  by (simp add: mask_eq_exp_minus_1)

lemma offset_mask: "(0xFFF :: u32) = mask 12"
  by (simp add: mask_eq_exp_minus_1)

lemma index_mask: "(0x3FF :: u32) = mask 10"
  by (simp add: mask_eq_exp_minus_1)

lemma page_aligned_iff: "(t :: u32) mod 4096 = 0 \<longleftrightarrow> take_bit 12 t = 0"
  by (simp add: take_bit_eq_mod)

lemma page_aligned_bit: "(t :: u32) mod 4096 = 0 \<Longrightarrow> n < 12 \<Longrightarrow> \<not> bit t n"
  unfolding page_aligned_iff by (metis bit_0_eq bit_take_bit_iff bot_apply bot_bool_def)

lemma page_of_entry [simp]:
  assumes "(t :: u32) mod 4096 = 0" and "f < 4096"
  shows "(t OR f) AND 0xFFFFF000 = t"
proof -
  have "unat f < 4096" using assms(2) by (simp add: word_less_nat_alt)
  then have "take_bit 12 f = f" by (simp add: take_bit_eq_mod word_unat_eq_iff unat_mod)
  then have f: "\<not> bit f n" if "12 \<le> n" for n using that by (metis bit_take_bit_iff not_le)
  have t: "12 \<le> n" if "bit t n" for n using that page_aligned_bit [OF assms(1)] not_less by blast
  show ?thesis
    unfolding page_mask
    by (rule bit_word_eqI) (use f t in \<open>auto simp: bit_simps not_less\<close>)
qed

lemma page_part_aligned [simp]: "((w :: u32) AND 0xFFFFF000) mod 4096 = 0"
  unfolding page_aligned_iff page_mask by (rule bit_word_eqI) (auto simp: bit_simps)

lemma entry_present:
  assumes "(t :: u32) mod 4096 = 0"
  shows "(t OR f) AND 1 = f AND 1"
  by (rule bit_word_eqI) (use page_aligned_bit [OF assms, of 0] in \<open>auto simp: bit_simps\<close>)

lemma page_aligned_cases:
  assumes "(t :: u32) mod 4096 = 0"
  obtains x where "unat t = 4096 * x" and "x < 0x100000"
proof -
  have "unat t mod 4096 = 0" using assms by (simp add: word_unat_eq_iff unat_mod)
  then obtain x where "unat t = 4096 * x" by auto
  moreover from this have "x < 0x100000" using unat_less_2p32 [of t] by linarith
  ultimately show ?thesis by (rule that)
qed

lemma pd_index_less: "drop_bit 22 (v :: u32) < 1024"
proof -
  have "unat v div 4194304 < 1024" using unat_less_2p32 [of v] by linarith
  then show ?thesis by (simp add: word_less_nat_alt drop_bit_eq_div unat_div)
qed

lemma pt_index_less: "drop_bit 12 (v :: u32) AND 0x3FF < 1024"
  unfolding index_mask take_bit_eq_mask [symmetric]
  by (simp add: take_bit_eq_mod word_less_nat_alt unat_mod)

lemma cell_unat:
  assumes "(t :: u32) mod 4096 = 0" and "i < 1024"
  shows "unat (t + 4 * i) = unat t + 4 * unat i"
proof -
  obtain x where "unat t = 4096 * x" "x < 0x100000" using assms(1) by (rule page_aligned_cases)
  moreover have "unat i < 1024" using assms(2) by (simp add: word_less_nat_alt)
  ultimately show ?thesis by (simp add: unat_word_ariths)
qed

lemma cells_apart_mult4:
  assumes "4 dvd unat a" and "4 dvd unat b" and "a \<noteq> b"
  shows "cells_apart a b"
proof -
  obtain x y where xy: "unat a = 4 * x" "unat b = 4 * y" using assms(1,2) by (auto elim!: dvdE)
  have "x \<noteq> y" using assms(3) xy by (auto simp: word_unat_eq_iff)
  moreover have "x < 0x40000000" "y < 0x40000000"
    using unat_less_2p32 [of a] unat_less_2p32 [of b] xy by linarith+
  ultimately show ?thesis
    by (auto simp: cells_apart_def word_le_nat_alt unat_sub_if_size size_word_def xy)
qed

text \<open>Two cells of page-aligned tables are the same cell or do not overlap.\<close>

lemma page_cells_eq_iff:
  assumes "(t :: u32) mod 4096 = 0" "u mod 4096 = 0" "i < 1024" "j < 1024"
  shows "t + 4 * i = u + 4 * j \<longleftrightarrow> t = u \<and> i = j"
proof
  assume "t + 4 * i = u + 4 * j"
  then have e: "unat t + 4 * unat i = unat u + 4 * unat j"
    using cell_unat [OF assms(1,3)] cell_unat [OF assms(2,4)] by metis
  obtain x y where xy: "unat t = 4096 * x" "unat u = 4096 * y"
    using page_aligned_cases [OF assms(1)] page_aligned_cases [OF assms(2)] by metis
  have ij: "unat i < 1024" "unat j < 1024" using assms(3,4) by (simp_all add: word_less_nat_alt)
  have "x = y" using e ij unfolding xy by linarith
  then have "unat t = unat u \<and> unat i = unat j" using e xy by simp
  then show "t = u \<and> i = j" by (simp add: word_unat_eq_iff)
qed simp

lemma page_cells_apart:
  assumes "(t :: u32) mod 4096 = 0" "u mod 4096 = 0" "i < 1024" "j < 1024" and "t \<noteq> u \<or> i \<noteq> j"
  shows "cells_apart (t + 4 * i) (u + 4 * j)"
proof (rule cells_apart_mult4)
  have "4 dvd unat w" if "(w :: u32) mod 4096 = 0" for w
    using that by (rule page_aligned_cases) simp
  then show "4 dvd unat (t + 4 * i)" "4 dvd unat (u + 4 * j)"
    using assms by (simp_all add: cell_unat)
  show "t + 4 * i \<noteq> u + 4 * j" using assms by (simp add: page_cells_eq_iff)
qed

section \<open>What the hardware makes of the tables\<close>

text \<open>The translation a present table entry gives, and the two-level walk from \<^verbatim>\<open>CR3\<close>; \<open>None\<close> is
  a page fault.\<close>

definition entry_translate :: "u32 \<Rightarrow> u32 \<Rightarrow> u32 option" where
  "entry_translate e v =
     (if e AND PAGE_PRESENT = 0 then None else Some ((e AND 0xFFFFF000) OR (v AND 0xFFF)))"

definition mmu_translate :: "kernel \<Rightarrow> u32 \<Rightarrow> u32 option" where
  "mmu_translate k v =
     (let pde = load32 (mem k) ((cr3 k AND 0xFFFFF000) + 4 * drop_bit 22 v)
      in if pde AND PAGE_PRESENT = 0 then None
         else entry_translate
                (load32 (mem k) ((pde AND 0xFFFFF000) + 4 * (drop_bit 12 v AND 0x3FF))) v)"

text \<open>What the linker and the \<^verbatim>\<open>aligned\<close> attributes promise: the two objects are page-aligned,
  do not wrap around the address space and do not overlap.\<close>

definition vmm_layout :: "layout \<Rightarrow> bool" where
  "vmm_layout L \<longleftrightarrow>
     kernel_page_directory L mod 4096 = 0 \<and> kernel_page_tables L mod 4096 = 0
     \<and> unat (kernel_page_tables L) + 16384 \<le> 2 ^ 32
     \<and> (unat (kernel_page_directory L) + 4096 \<le> unat (kernel_page_tables L)
        \<or> unat (kernel_page_tables L) + 16384 \<le> unat (kernel_page_directory L))"

text \<open>The invariant: the directory in use is the kernel's, and no entry of it names the
  directory itself as a page table.\<close>

definition vmm_ok :: "layout \<Rightarrow> kernel \<Rightarrow> bool" where
  "vmm_ok L k \<longleftrightarrow>
     vmm_layout L \<and> cr3 k = kernel_page_directory L
     \<and> (\<forall>i<1024. load32 (mem k) (pd_cell L i) AND PAGE_PRESENT \<noteq> 0 \<longrightarrow>
          load32 (mem k) (pd_cell L i) AND 0xFFFFF000 \<noteq> kernel_page_directory L)"

text \<open>The address of the table entry for a virtual address, if it has a page table.\<close>

definition vmm_slot :: "layout \<Rightarrow> kernel \<Rightarrow> u32 \<Rightarrow> u32 option" where
  "vmm_slot L k v =
     (let pde = load32 (mem k) (pd_cell L (drop_bit 22 v))
      in if pde AND PAGE_PRESENT = 0 then None
         else Some ((pde AND 0xFFFFF000) + 4 * (drop_bit 12 v AND 0x3FF)))"

definition put_entry :: "u32 \<Rightarrow> u32 \<Rightarrow> kernel \<Rightarrow> kernel" where
  "put_entry a e k = k\<lparr>mem := store32 (mem k) a e\<rparr>"

section \<open>The contract of the table entries\<close>

text \<open>What the page-table code relies on: every address has at most one slot, writing a slot
  moves no slot and changes the entry of no other.\<close>

definition slot_translate :: "('s \<Rightarrow> u32 \<Rightarrow> u32 option) \<Rightarrow> ('s \<Rightarrow> u32 \<Rightarrow> u32) \<Rightarrow> 's \<Rightarrow> u32 \<Rightarrow> u32 option" where
  "slot_translate slot entry s v =
     (case slot s v of None \<Rightarrow> None | Some a \<Rightarrow> entry_translate (entry s a) v)"

locale entry_store =
  fixes ok :: "'s \<Rightarrow> bool"
    and slot :: "'s \<Rightarrow> u32 \<Rightarrow> u32 option"
    and entry :: "'s \<Rightarrow> u32 \<Rightarrow> u32"
    and put :: "u32 \<Rightarrow> u32 \<Rightarrow> 's \<Rightarrow> 's"
  assumes put_ok: "ok s \<Longrightarrow> slot s v = Some a \<Longrightarrow> ok (put a e s)"
    and put_slot: "ok s \<Longrightarrow> slot s v = Some a \<Longrightarrow> slot (put a e s) w = slot s w"
    and put_entry_same: "ok s \<Longrightarrow> slot s v = Some a \<Longrightarrow> entry (put a e s) a = e"
    and put_entry_other: "ok s \<Longrightarrow> slot s v = Some a \<Longrightarrow> slot s w = Some b \<Longrightarrow> b \<noteq> a \<Longrightarrow>
      entry (put a e s) b = entry s b"
begin

text \<open>After a slot is written, exactly the addresses that share it translate by the new entry.\<close>

lemma translate_put:
  assumes "ok s" and "slot s v = Some a"
  shows "slot_translate slot entry (put a e s) w =
    (if slot s w = Some a then entry_translate e w else slot_translate slot entry s w)"
  using put_entry_same [OF assms] put_entry_other [OF assms]
  by (auto simp: slot_translate_def put_slot [OF assms] split: option.split)

text \<open>Of two writes to the slot of an address the second counts.\<close>

lemma translate_put_put:
  assumes "ok s" and "slot s v = Some a"
  shows "slot_translate slot entry (put a e' (put a e s)) w =
    slot_translate slot entry (put a e' s) w"
  using assms put_ok [OF assms] put_slot [OF assms] by (simp add: translate_put [where v = v])

end

text \<open>The directory and table code satisfies the contract.\<close>

lemma layout_dir_aligned [simp]: "vmm_layout L \<Longrightarrow> kernel_page_directory L mod 4096 = 0"
  by (simp add: vmm_layout_def)

lemma slot_cell:
  assumes "vmm_ok L k" and "vmm_slot L k v = Some a"
  obtains t i where "a = t + 4 * i" "t mod 4096 = 0" "i < 1024" "t \<noteq> kernel_page_directory L"
proof -
  let ?e = "load32 (mem k) (pd_cell L (drop_bit 22 v))"
  have e: "?e AND PAGE_PRESENT \<noteq> 0" "a = (?e AND 0xFFFFF000) + 4 * (drop_bit 12 v AND 0x3FF)"
    using assms(2) by (auto simp: vmm_slot_def Let_def split: if_splits)
  moreover have "?e AND 0xFFFFF000 \<noteq> kernel_page_directory L"
    using assms(1) e(1) pd_index_less by (auto simp: vmm_ok_def)
  ultimately show ?thesis using pt_index_less by (intro that) auto
qed

lemma slot_apart_dir:
  assumes "vmm_ok L k" and "vmm_slot L k v = Some a" and "i < 1024"
  shows "load32 (store32 (mem k) a e) (pd_cell L i) = load32 (mem k) (pd_cell L i)"
proof -
  obtain t j where "a = t + 4 * j" "t mod 4096 = 0" "j < 1024" "t \<noteq> kernel_page_directory L"
    using assms(1,2) by (rule slot_cell)
  moreover have "vmm_layout L" using assms(1) by (simp add: vmm_ok_def)
  ultimately have "cells_apart a (pd_cell L i)"
    using assms(3) by (simp add: pd_cell_def page_cells_apart)
  then show ?thesis by (rule load32_store32_apart)
qed

lemma vmm_slot_put:
  assumes "vmm_ok L k" and "vmm_slot L k v = Some a"
  shows "vmm_slot L (put_entry a e k) w = vmm_slot L k w"
  using slot_apart_dir [OF assms pd_index_less] by (simp add: vmm_slot_def put_entry_def)

interpretation pages: entry_store "vmm_ok L" "vmm_slot L" "\<lambda>k. load32 (mem k)" put_entry
proof (unfold_locales)
  fix k v a e w b
  assume ok: "vmm_ok L k" and a: "vmm_slot L k v = Some a"
  show "vmm_ok L (put_entry a e k)"
    using ok slot_apart_dir [OF ok a] by (simp add: vmm_ok_def put_entry_def)
  show "vmm_slot L (put_entry a e k) w = vmm_slot L k w" by (rule vmm_slot_put [OF ok a])
  show "load32 (mem (put_entry a e k)) a = e" by (simp add: put_entry_def)
  assume b: "vmm_slot L k w = Some b" "b \<noteq> a"
  have "cells_apart a b"
    using slot_cell [OF ok a] slot_cell [OF ok b(1)] b(2) page_cells_apart by metis
  then show "load32 (mem (put_entry a e k)) b = load32 (mem k) b"
    by (simp add: put_entry_def load32_store32_apart)
qed

text \<open>The hardware walk is the walk through the slots.\<close>

lemma page_part_id: "t mod 4096 = 0 \<Longrightarrow> t AND 0xFFFFF000 = (t :: u32)"
  using page_of_entry [of t 0] by simp

lemma mmu_slot:
  assumes "vmm_ok L k"
  shows "mmu_translate k v = slot_translate (vmm_slot L) (\<lambda>k. load32 (mem k)) k v"
proof -
  have "kernel_page_directory L AND 0xFFFFF000 = kernel_page_directory L" "cr3 k = kernel_page_directory L"
    using assms page_part_id by (simp_all add: vmm_ok_def)
  then show ?thesis
    by (simp add: mmu_translate_def slot_translate_def vmm_slot_def pd_cell_def Let_def)
qed

lemma vmm_ok_log [simp]: "vmm_ok L (k\<lparr>invlpg_log := l\<rparr>) = vmm_ok L k"
  by (simp add: vmm_ok_def)

lemma mmu_log [simp]: "mmu_translate (k\<lparr>invlpg_log := l\<rparr>) v = mmu_translate k v"
  by (simp add: mmu_translate_def Let_def)

lemma mmu_put:
  assumes "vmm_ok L k" and "vmm_slot L k v = Some a"
  shows "mmu_translate (put_entry a e k) w =
    (if vmm_slot L k w = Some a then entry_translate e w else mmu_translate k w)"
  using pages.translate_put [OF assms] pages.put_ok [OF assms] assms(1) by (simp add: mmu_slot [of L])

section \<open>The operations on the translation\<close>

lemma vmm_slot_cases:
  obtains (none) "vmm_slot L k v = None" "load32 (mem k) (pd_cell L (drop_bit 22 v)) AND PAGE_PRESENT = 0"
  | (some) "vmm_slot L k v = Some ((load32 (mem k) (pd_cell L (drop_bit 22 v)) AND 0xFFFFF000)
        + 4 * (drop_bit 12 v AND 0x3FF))"
      "load32 (mem k) (pd_cell L (drop_bit 22 v)) AND PAGE_PRESENT \<noteq> 0"
  by (auto simp: vmm_slot_def Let_def)

lemma pd_index_in_range: "\<not> PD_SIZE \<le> drop_bit 22 v"
  using pd_index_less [of v] by (simp add: PD_SIZE_def)

lemma vmm_map_present:
  assumes "virt mod PAGE_SIZE = 0" "phys mod PAGE_SIZE = 0" "vmm_slot L k virt = Some a"
  shows "vmm_map L virt phys flags k =
    (0, (put_entry a (phys OR flags) k)\<lparr>invlpg_log := invlpg_log k @ [virt]\<rparr>)"
  using assms(3)
  by (cases rule: vmm_slot_cases [of L k virt])
     (simp_all add: vmm_map_def assms(1,2) pd_index_in_range put_entry_def Let_def)

lemma vmm_map_unaligned:
  "virt mod PAGE_SIZE \<noteq> 0 \<or> phys mod PAGE_SIZE \<noteq> 0 \<Longrightarrow> vmm_map L virt phys flags k = (-1, k)"
  by (auto simp: vmm_map_def)

lemma vmm_map_absent:
  assumes "virt mod PAGE_SIZE = 0" "phys mod PAGE_SIZE = 0" "vmm_slot L k virt = None"
    and "pmm_alloc k = (t, k1)"
  shows "vmm_map L virt phys flags k =
    (if t = 0 then (-1, k1)
     else (0, (put_entry (t + 4 * (drop_bit 12 virt AND 0x3FF)) (phys OR flags)
                 (put_entry (pd_cell L (drop_bit 22 virt)) (t OR (PAGE_PRESENT OR PAGE_WRITE)) k1))
              \<lparr>invlpg_log := invlpg_log k1 @ [virt]\<rparr>))"
  using assms(3)
  by (cases rule: vmm_slot_cases [of L k virt])
     (simp_all add: vmm_map_def assms(1,2,4) pd_index_in_range put_entry_def Let_def)

lemma vmm_unmap_slot:
  "vmm_unmap L v k =
     (case vmm_slot L k v of
        None \<Rightarrow> (-1, k)
      | Some a \<Rightarrow> if load32 (mem k) a AND PAGE_PRESENT = 0 then (-1, k)
          else (0, (put_entry a 0 k)\<lparr>invlpg_log := invlpg_log k @ [v]\<rparr>))"
  by (cases rule: vmm_slot_cases [of L k v]) (simp_all add: vmm_unmap_def put_entry_def Let_def)

lemma vmm_get_phys_slot:
  "vmm_get_phys L v k =
     (case vmm_slot L k v of
        None \<Rightarrow> 0
      | Some a \<Rightarrow> if load32 (mem k) a AND PAGE_PRESENT = 0 then 0 else load32 (mem k) a AND 0xFFFFF000)"
  by (cases rule: vmm_slot_cases [of L k v]) (simp_all add: vmm_get_phys_def Let_def)

lemma offset_less_page: "(v :: u32) AND 0xFFF < 4096"
proof -
  have "v AND 0xFFF = take_bit 12 v" by (simp only: take_bit_eq_mask offset_mask)
  then show ?thesis by (simp add: take_bit_eq_mod word_less_nat_alt unat_mod)
qed

lemma entry_translate_page:
  "entry_translate e v = Some p \<Longrightarrow> p AND 0xFFFFF000 = e AND 0xFFFFF000"
  by (auto simp: entry_translate_def offset_less_page split: if_splits)

lemma entry_translate_absent [simp]: "entry_translate 0 v = None"
  by (simp add: entry_translate_def)

section \<open>Initialisation\<close>

text \<open>The cells the three parts of \<^verbatim>\<open>vmm_init\<close> write.\<close>

lemma pt_row: "pt_cell L (of_nat i) (of_nat j) = pt_cell L 0 (of_nat (1024 * i + j))"
  by (simp add: pt_cell_def algebra_simps)

lemma table_cells_apart:
  assumes "vmm_layout L" "i < 4096" "j < 4096" "i \<noteq> j"
  shows "cells_apart (pt_cell L 0 (of_nat i)) (pt_cell L 0 (of_nat j))"
proof -
  have u: "unat (pt_cell L 0 (of_nat n)) = unat (kernel_page_tables L) + 4 * n" if "n < 4096" for n
    using that assms(1) by (simp add: pt_cell_def vmm_layout_def unat_word_ariths unat_of_nat)
  obtain x where "unat (kernel_page_tables L) = 4096 * x"
    using assms(1) page_aligned_cases by (metis vmm_layout_def)
  then show ?thesis
    using assms(2-4) by (intro cells_apart_mult4) (auto simp: u word_unat_eq_iff)
qed

lemma dir_table_cells_apart:
  assumes "vmm_layout L" "i < 1024" "j < 4096"
  shows "cells_apart (pd_cell L i) (pt_cell L 0 (of_nat j))"
proof -
  have i: "unat i < 1024" using assms(2) by (simp add: word_less_nat_alt)
  have u: "unat (pt_cell L 0 (of_nat j)) = unat (kernel_page_tables L) + 4 * j"
    using assms(1,3) by (simp add: pt_cell_def vmm_layout_def unat_word_ariths unat_of_nat)
  have v: "unat (pd_cell L i) = unat (kernel_page_directory L) + 4 * unat i"
    using assms(1,2) by (simp add: pd_cell_def cell_unat)
  obtain x y where "unat (kernel_page_tables L) = 4096 * x" "unat (kernel_page_directory L) = 4096 * y"
    using assms(1) page_aligned_cases by (metis vmm_layout_def)
  moreover have "pd_cell L i \<noteq> pt_cell L 0 (of_nat j)"
    using assms(1,3) i by (auto simp: u v vmm_layout_def word_unat_eq_iff)
  ultimately show ?thesis by (intro cells_apart_mult4) (auto simp: u v)
qed

lemma dir_cells_apart:
  assumes "vmm_layout L" "i < 1024" "j < 1024" "i \<noteq> j"
  shows "cells_apart (pd_cell L i) (pd_cell L j)"
  using assms by (simp add: pd_cell_def page_cells_apart)

lemma of_nat_index: "i < 1024 \<Longrightarrow> (of_nat i :: u32) < 1024"
  by (simp add: word_less_nat_alt)

lemma vmm_clear_dir:
  assumes "vmm_layout L" and "i < 1024"
  shows "load32 (vmm_clear L m) (pd_cell L i) = 0"
proof -
  have i: "i = of_nat (unat i)" "unat i < 1024" using assms(2) by (simp_all add: word_less_nat_alt)
  have "load32 (fold (\<lambda>i m. store32 m (pd_cell L (of_nat i)) 0) [0..<1024] m) (pd_cell L (of_nat (unat i))) = 0"
    by (rule fold_store32_in)
       (use i in \<open>auto intro!: dir_cells_apart [OF assms(1)] of_nat_index simp: of_nat_u32_eq_iff\<close>)
  then have dir: "load32 (fold (\<lambda>i m. store32 m (pd_cell L (of_nat i)) 0) [0..<1024] m) (pd_cell L i) = 0"
    by simp
  have row: "load32 (fold (\<lambda>j m. store32 m (pt_cell L (of_nat l) (of_nat j)) 0) [0..<1024] m') (pd_cell L i)
      = load32 m' (pd_cell L i)" if "l < 4" for l m'
    by (rule fold_store32_apart)
       (use that in \<open>auto simp: pt_row cells_apart_sym intro!: dir_table_cells_apart assms
          simp del: of_nat_add of_nat_mult\<close>)
  show ?thesis
    unfolding vmm_clear_def Let_def
    by (rule fold_invariant_rule [where P = "\<lambda>m. load32 m (pd_cell L i) = 0"]) (auto simp: dir row)
qed

lemma vmm_identity_dir:
  assumes "vmm_layout L" and "i < 1024"
  shows "load32 (vmm_identity L m) (pd_cell L i) = load32 m (pd_cell L i)"
  unfolding vmm_identity_def
  by (rule fold_store32_apart) (auto simp: cells_apart_sym intro!: dir_table_cells_apart assms)

lemma vmm_identity_entry:
  assumes "vmm_layout L" and "i < 4096"
  shows "load32 (vmm_identity L m) (pt_cell L 0 (of_nat i)) = (of_nat i * PAGE_SIZE) OR 3"
proof -
  have "load32 (vmm_identity L m) (pt_cell L 0 (of_nat i)) =
      (of_nat i * PAGE_SIZE) OR (PAGE_PRESENT OR PAGE_WRITE)"
    unfolding vmm_identity_def
    by (rule fold_store32_in) (use assms table_cells_apart in auto)
  then show ?thesis by (simp add: PAGE_PRESENT_def PAGE_WRITE_def)
qed

lemma vmm_directory_unfold:
  "vmm_directory L m = fold (\<lambda>i m. store32 m (pd_cell L (of_nat i)) (pt_cell L (of_nat (i mod 4)) 0 OR 3))
     [0, 1, 2, 3, 768, 769, 770, 771] m"
  by (simp add: vmm_directory_def Let_def PAGE_PRESENT_def PAGE_WRITE_def upt_rec)

lemma vmm_directory_table:
  assumes "vmm_layout L" and "i < 4096"
  shows "load32 (vmm_directory L m) (pt_cell L 0 (of_nat i)) = load32 m (pt_cell L 0 (of_nat i))"
  unfolding vmm_directory_unfold
  by (rule fold_store32_apart) (use assms in \<open>auto intro!: dir_table_cells_apart simp: word_less_nat_alt\<close>)

lemma vmm_directory_entry:
  assumes "vmm_layout L" and "i < 1024"
  shows "load32 (vmm_directory L m) (pd_cell L (of_nat i)) =
    (if i < 4 \<or> 768 \<le> i \<and> i < 772 then pt_cell L (of_nat (i mod 4)) 0 OR 3
     else load32 m (pd_cell L (of_nat i)))"
proof (cases "i < 4 \<or> 768 \<le> i \<and> i < 772")
  case True
  then have i: "i \<in> set [0, 1, 2, 3, 768, 769, 770, 771]" by auto
  show ?thesis
    unfolding vmm_directory_unfold if_P [OF True]
    by (rule fold_store32_in [OF _ _ i])
       (auto intro!: dir_cells_apart [OF assms(1)] simp: word_less_nat_alt)
next
  case False
  show ?thesis
    unfolding vmm_directory_unfold if_not_P [OF False]
    by (rule fold_store32_apart)
       (use False assms in \<open>auto intro!: dir_cells_apart simp: word_unat_eq_iff word_less_nat_alt\<close>)
qed

lemma unat_split_address:
  fixes v :: u32
  defines "n \<equiv> unat (drop_bit 22 v)" and "j \<equiv> unat (drop_bit 12 v AND 0x3FF)" and "f \<equiv> unat (v AND 0xFFF)"
  shows "unat v = 4194304 * n + 4096 * j + f" and "n < 1024" and "j < 1024" and "f < 4096"
proof -
  have n: "n = unat v div 4194304" by (simp add: n_def drop_bit_eq_div unat_div)
  have j: "j = (unat v div 4096) mod 1024"
    unfolding j_def index_mask take_bit_eq_mask [symmetric]
    by (simp add: take_bit_eq_mod drop_bit_eq_div unat_div unat_mod)
  have f: "f = unat v mod 4096"
    unfolding f_def offset_mask take_bit_eq_mask [symmetric] by (simp add: take_bit_eq_mod unat_mod)
  have "unat v div 4096 div 1024 = unat v div 4194304" by (simp flip: div_mult2_eq)
  then have "unat v div 4096 = 1024 * n + j" unfolding n j by (metis mult_div_mod_eq)
  moreover have "unat v = 4096 * (unat v div 4096) + f" unfolding f by simp
  ultimately show "unat v = 4194304 * n + 4096 * j + f" by simp
  show "n < 1024" using pd_index_less [of v] by (simp add: n_def word_less_nat_alt)
  show "j < 1024" using pt_index_less [of v] by (simp add: j_def word_less_nat_alt)
  show "f < 4096" using offset_less_page [of v] by (simp add: f_def word_less_nat_alt)
qed

lemma page_or_offset:
  assumes "(t :: u32) mod 4096 = 0" and "f < 4096"
  shows "t OR f = t + f"
proof -
  have "unat f < 4096" using assms(2) by (simp add: word_less_nat_alt)
  then have "take_bit 12 f = f" by (simp add: take_bit_eq_mod word_unat_eq_iff unat_mod)
  then have f: "n < 12" if "bit f n" for n using that by (metis bit_take_bit_iff)
  have "t AND f = 0"
    by (rule bit_word_eqI) (use f page_aligned_bit [OF assms(1)] in \<open>auto simp: bit_simps\<close>)
  then show ?thesis by (simp add: disjunctive_add_eq_or)
qed

text \<open>The row of page tables a directory index leads to, and the entry it holds.\<close>

lemma window_entry:
  assumes "vmm_layout L" and "n < 4" and "j < 1024"
  shows "load32 (vmm_directory L (vmm_identity L m))
      (((pt_cell L (of_nat n) 0 OR 3) AND 0xFFFFF000) + 4 * of_nat j) =
    (of_nat (1024 * n + j) * 4096) OR 3"
proof -
  have t: "kernel_page_tables L mod 4096 = 0" using assms(1) by (simp add: vmm_layout_def)
  then obtain x where x: "unat (kernel_page_tables L) = 4096 * x" by (rule page_aligned_cases)
  have "unat (pt_cell L (of_nat n) 0) = 4096 * (x + n)"
    using assms(1,2) x by (simp add: pt_cell_def vmm_layout_def unat_word_ariths unat_of_nat)
  then have "pt_cell L (of_nat n) 0 mod 4096 = 0" by (simp add: word_unat_eq_iff unat_mod)
  then have "((pt_cell L (of_nat n) 0 OR 3) AND 0xFFFFF000) + 4 * of_nat j =
      pt_cell L (of_nat n) (of_nat j)" by (simp add: pt_cell_def)
  then show ?thesis
    using assms vmm_identity_entry [OF assms(1), of "1024 * n + j"]
    by (simp add: pt_row vmm_directory_table PAGE_SIZE_def del: of_nat_add of_nat_mult)
qed

lemma window_translate:
  assumes "n < 4" and "j < 1024"
  shows "entry_translate ((of_nat (1024 * n + j) * 4096) OR 3) v =
    Some (of_nat (4194304 * n + 4096 * j) + (v AND 0xFFF))"
proof -
  let ?t = "of_nat (1024 * n + j) * (4096 :: u32)"
  have t: "?t = of_nat (4194304 * n + 4096 * j)" by (simp add: algebra_simps)
  have "unat ?t = 4096 * (1024 * n + j)" unfolding t using assms by (simp add: unat_of_nat del: of_nat_add of_nat_mult)
  then have "?t mod 4096 = 0" by (simp add: word_unat_eq_iff unat_mod)
  then show ?thesis
    by (simp add: entry_translate_def PAGE_PRESENT_def entry_present page_or_offset [OF _ offset_less_page] t
        del: of_nat_add of_nat_mult)
qed

lemma vmm_init_mem:
  "mem (snd (vmm_init L k)) = vmm_directory L (vmm_identity L (vmm_clear L (mem k)))"
  "cr3 (snd (vmm_init L k)) = kernel_page_directory L"
  "cr0 (snd (vmm_init L k)) = cr0 k OR 0x80000000"
  "fst (vmm_init L k) = 1"
  by (simp_all add: vmm_init_def Let_def)

lemma vmm_init_pde:
  assumes "vmm_layout L" and "n < 1024"
  shows "load32 (mem (snd (vmm_init L k))) (pd_cell L (of_nat n)) =
    (if n < 4 \<or> 768 \<le> n \<and> n < 772 then pt_cell L (of_nat (n mod 4)) 0 OR 3 else 0)"
  using assms by (simp add: vmm_init_mem vmm_directory_entry vmm_identity_dir vmm_clear_dir of_nat_index)

lemma vmm_init_pde_page:
  assumes "vmm_layout L" and "n < 4"
  shows "(pt_cell L (of_nat n) 0 OR 3) AND 0xFFFFF000 = pt_cell L (of_nat n) 0"
    and "(pt_cell L (of_nat n) 0 OR 3) AND PAGE_PRESENT \<noteq> 0"
    and "pt_cell L (of_nat n) 0 \<noteq> kernel_page_directory L"
proof -
  have t: "kernel_page_tables L mod 4096 = 0" using assms(1) by (simp add: vmm_layout_def)
  then obtain x where x: "unat (kernel_page_tables L) = 4096 * x" by (rule page_aligned_cases)
  have u: "unat (pt_cell L (of_nat n) 0) = 4096 * (x + n)"
    using assms(1,2) x by (simp add: pt_cell_def vmm_layout_def unat_word_ariths unat_of_nat)
  then have a: "pt_cell L (of_nat n) 0 mod 4096 = 0" by (simp add: word_unat_eq_iff unat_mod)
  then show "(pt_cell L (of_nat n) 0 OR 3) AND 0xFFFFF000 = pt_cell L (of_nat n) 0"
    by simp
  show "(pt_cell L (of_nat n) 0 OR 3) AND PAGE_PRESENT \<noteq> 0"
    using a by (simp add: PAGE_PRESENT_def entry_present)
  have "unat (pt_cell L (of_nat n) 0) \<noteq> unat (kernel_page_directory L)"
    using assms u x by (auto simp: vmm_layout_def)
  then show "pt_cell L (of_nat n) 0 \<noteq> kernel_page_directory L" by metis
qed

lemma vmm_init_ok:
  assumes "vmm_layout L"
  shows "vmm_ok L (snd (vmm_init L k))"
proof -
  have "load32 (mem (snd (vmm_init L k))) (pd_cell L i) AND 0xFFFFF000 \<noteq> kernel_page_directory L"
    if "i < 1024" "load32 (mem (snd (vmm_init L k))) (pd_cell L i) AND PAGE_PRESENT \<noteq> 0" for i
  proof -
    have i: "i = of_nat (unat i)" "unat i < 1024" using that(1) by (simp_all add: word_less_nat_alt)
    have "load32 (mem (snd (vmm_init L k))) (pd_cell L i) = pt_cell L (of_nat (unat i mod 4)) 0 OR 3"
      using that(2) vmm_init_pde [OF assms i(2), of k] by (auto split: if_splits)
    then show ?thesis using vmm_init_pde_page [OF assms, of "unat i mod 4"] by simp
  qed
  then show ?thesis using assms by (simp add: vmm_ok_def vmm_init_mem)
qed

text \<open>The slots after \<^verbatim>\<open>vmm_init\<close>: both windows lead to the same rows of tables.\<close>

lemma vmm_init_slot:
  assumes "vmm_layout L"
  defines "n \<equiv> \<lambda>v. unat (drop_bit 22 (v :: u32))"
  shows "vmm_slot L (snd (vmm_init L k)) v =
    (if n v < 4 \<or> 768 \<le> n v \<and> n v < 772
     then Some (pt_cell L (of_nat (n v mod 4)) 0 + 4 * (drop_bit 12 v AND 0x3FF)) else None)"
proof -
  have v: "drop_bit 22 v = of_nat (n v)" "n v < 1024"
    using unat_split_address(2) [of v] by (simp_all add: n_def)
  show ?thesis
    using vmm_init_pde [OF assms(1) v(2), of k] vmm_init_pde_page [OF assms(1), of "n v mod 4"]
    unfolding vmm_slot_def v(1) by simp
qed

lemma vmm_init_translate:
  assumes "vmm_layout L"
  defines "n \<equiv> \<lambda>v. unat (drop_bit 22 (v :: u32))"
  shows "mmu_translate (snd (vmm_init L k)) v =
    (if n v < 4 \<or> 768 \<le> n v \<and> n v < 772
     then Some (of_nat (4194304 * (n v mod 4) + 4096 * unat (drop_bit 12 v AND 0x3FF)) + (v AND 0xFFF))
     else None)"
proof -
  let ?j = "unat (drop_bit 12 v AND 0x3FF)"
  have j: "drop_bit 12 v AND 0x3FF = of_nat ?j" "?j < 1024"
    using unat_split_address(3) [of v] by simp_all
  have "load32 (mem (snd (vmm_init L k))) (pt_cell L (of_nat (n v mod 4)) 0 + 4 * (drop_bit 12 v AND 0x3FF))
      = (of_nat (1024 * (n v mod 4) + ?j) * 4096) OR 3"
    using window_entry [OF assms(1), of "n v mod 4" ?j] vmm_init_pde_page(1) [OF assms(1), of "n v mod 4"] j
    by (simp add: vmm_init_mem del: of_nat_add of_nat_mult)
  then show ?thesis
    using window_translate [of "n v mod 4" ?j v] j(2)
    unfolding mmu_slot [OF vmm_init_ok [OF assms(1)]] slot_translate_def vmm_init_slot [OF assms(1)] n_def
    by (simp del: of_nat_add of_nat_mult)
qed

section \<open>A new page table\<close>


lemma cell_below_bitmap:
  assumes "t mod 4096 = 0" and "t < 0xC0200000" and "i < 1024" and "d < 4"
  shows "t + 4 * i + d < (0xC0200000 :: u32)"
proof -
  have d: "unat d < 4" using assms(4) by (simp add: word_less_nat_alt)
  obtain x where x: "unat t = 4096 * x" using assms(1) by (rule page_aligned_cases)
  have "unat t < 0xC0200000" using assms(2) by (simp add: word_less_nat_alt)
  then have "x < 0xC0200" using x by simp
  moreover have "unat i < 1024" using assms(3) by (simp add: word_less_nat_alt)
  ultimately have b: "unat (t + 4 * i) + unat d < 0xC0200000"
    using d x by (simp add: cell_unat [OF assms(1,3)])
  then have "unat (t + 4 * i + d) = unat (t + 4 * i) + unat d" by (simp add: unat_word_ariths)
  then show ?thesis using b by (simp add: word_less_nat_alt)
qed

lemma alloc_keeps_cell:
  assumes "pmm_inv k" and "t mod 4096 = 0" and "t < 0xC0200000" and "i < 1024"
  shows "load32 (mem (snd (pmm_alloc k))) (t + 4 * i) = load32 (mem k) (t + 4 * i)"
  by (rule load32_cong) (use pmm_alloc_writes [OF assms(1)] below_bitmap [OF assms(1)] cell_below_bitmap [OF assms(2-4)] in blast)





text \<open>\<^verbatim>\<open>vmm_init\<close> writes the directory and the four table rows only.\<close>

definition in_tables :: "layout \<Rightarrow> u32 \<Rightarrow> bool" where
  "in_tables L x \<longleftrightarrow> x - kernel_page_directory L < 4096 \<or> x - kernel_page_tables L < 16384"

lemma offset_in_range:
  assumes "(d :: u32) - 4 * of_nat i < 4" and "4 * i + 4 \<le> n" and "n \<le> 65536"
  shows "d < of_nat n"
proof -
  have i: "unat (4 * of_nat i :: u32) = 4 * i" using assms(2,3) by (simp add: unat_word_ariths unat_of_nat)
  have n: "unat (of_nat n :: u32) = n" using assms(3) by simp
  have "unat (d - 4 * of_nat i) < 4" using assms(1) by (simp add: word_less_nat_alt)
  then have "unat d < 4 * i + 4"
    using assms(2,3) by (simp add: unat_sub_if_size size_word_def i split: if_splits)
  then show ?thesis using assms(2) n by (simp add: word_less_nat_alt)
qed

lemma store_pd_outside:
  assumes "\<not> in_tables L x" and "i < 1024"
  shows "store32 m (pd_cell L (of_nat i)) v x = m x"
  using assms offset_in_range [of "x - kernel_page_directory L" i 4096]
  by (intro store32_other) (auto simp: pd_cell_def in_tables_def diff_diff_eq)

lemma store_pt_outside:
  assumes "\<not> in_tables L x" and "i < 4096"
  shows "store32 m (pt_cell L 0 (of_nat i)) v x = m x"
  using assms offset_in_range [of "x - kernel_page_tables L" i 16384]
  by (intro store32_other) (auto simp: pt_cell_def in_tables_def diff_diff_eq)

lemma vmm_init_writes:
  assumes "\<not> in_tables L x"
  shows "mem (snd (vmm_init L k)) x = mem k x"
proof -
  have c: "vmm_clear L (mem k) x = mem k x"
    unfolding vmm_clear_def Let_def
    by (intro fold_invariant_rule [where P = "\<lambda>m. m x = mem k x"])
       (auto simp: pt_row store_pd_outside [OF assms] store_pt_outside [OF assms]
         simp del: of_nat_add of_nat_mult)
  have i: "vmm_identity L m x = m x" for m
    unfolding vmm_identity_def
    by (rule fold_invariant_rule [where P = "\<lambda>m'. m' x = m x"]) (auto simp: store_pt_outside [OF assms])
  have "vmm_directory L m x = m x" for m
    unfolding vmm_directory_unfold
    by (rule fold_invariant_rule [where P = "\<lambda>m'. m' x = m x"])
       (auto simp: store_pd_outside [OF assms, of 0, simplified] store_pd_outside [OF assms, of 1, simplified]
         store_pd_outside [OF assms, of 2, simplified] store_pd_outside [OF assms, of 3, simplified]
         store_pd_outside [OF assms, of 768, simplified] store_pd_outside [OF assms, of 769, simplified]
         store_pd_outside [OF assms, of 770, simplified] store_pd_outside [OF assms, of 771, simplified])
  then show ?thesis by (simp add: vmm_init_mem c i)
qed

text \<open>A layout whose tables are below the bitmap, so that both initialisations stand side by side.\<close>

definition vmm_layout_low :: "layout \<Rightarrow> bool" where
  "vmm_layout_low L \<longleftrightarrow> vmm_layout L \<and> unat (kernel_page_directory L) + 4096 \<le> 0xC0200000
     \<and> unat (kernel_page_tables L) + 16384 \<le> 0xC0200000"

lemma low_not_in_tables:
  assumes "vmm_layout_low L" and "0xC0200000 \<le> x"
  shows "\<not> in_tables L x"
  using assms
  by (auto simp: vmm_layout_low_def in_tables_def word_le_nat_alt word_less_nat_alt
      unat_sub_if_size size_word_def)

lemma vmm_init_pmm:
  assumes "vmm_layout_low L" and "pmm_inv k"
  shows "pmm_inv (snd (vmm_init L k))"
    and "allocated_frames (snd (vmm_init L k)) = allocated_frames k"
    and "frame_count (snd (vmm_init L k)) = frame_count k"
proof -
  have s: "pmm_state (snd (vmm_init L k)) = pmm_state k" by (simp add: vmm_init_def Let_def)
  have m: "mem (snd (vmm_init L k)) a = mem k a" if "in_bitmap a k" for a
    using that below_bitmap [OF assms(2)] vmm_init_writes low_not_in_tables [OF assms(1)]
    by (meson not_less)
  show "pmm_inv (snd (vmm_init L k))"
    and "allocated_frames (snd (vmm_init L k)) = allocated_frames k"
    and "frame_count (snd (vmm_init L k)) = frame_count k"
    using pmm_cong [OF assms(2) s m] by auto
qed

section \<open>Properties\<close>

text \<open>A layout as the linker script makes one: the image from 1 MB on.\<close>

definition example_layout :: layout where
  "example_layout = \<lparr>kernel_page_directory = 0x108000, kernel_page_tables = 0x109000,
     gdt_addr = 0x10D000, idt_addr = 0x10D100, isr_stub = (\<lambda>i. 0x101000 + 16 * of_nat i),
     irq_stub = (\<lambda>i. 0x102000 + 16 * of_nat i)\<rparr>"

lemma example_layout_ok: "vmm_layout example_layout"
  by (simp add: vmm_layout_def example_layout_def)

lemma vmm_init_walk:
  assumes "vmm_layout L"
  shows "fst (vmm_init L k) = 1 \<and> bit (cr0 (snd (vmm_init L k))) 31
    \<and> mmu_translate (snd (vmm_init L k)) v =
      (if v < 0x1000000 then Some v
       else if 0xC0000000 \<le> v \<and> v < 0xC1000000 then Some (v - 0xC0000000)
       else None)"
proof -
  let ?n = "unat (drop_bit 22 v)" and ?j = "unat (drop_bit 12 v AND 0x3FF)" and ?f = "unat (v AND 0xFFF)"
  note u = unat_split_address [of v]
  have pg: "bit (cr0 (snd (vmm_init L k))) 31"
    by (simp add: vmm_init_mem bit_or_iff)
  have low: "v < 0x1000000 \<longleftrightarrow> ?n < 4" using u by (simp add: word_less_nat_alt) linarith
  have high: "0xC0000000 \<le> v \<and> v < 0xC1000000 \<longleftrightarrow> 768 \<le> ?n \<and> ?n < 772"
    using u by (simp add: word_less_nat_alt word_le_nat_alt) linarith
  have at: "of_nat (4194304 * m + 4096 * ?j) + (v AND 0xFFF) = of_nat (4194304 * m + 4096 * ?j + ?f)" for m
    by simp
  have lowv: "of_nat (4194304 * (?n mod 4) + 4096 * ?j) + (v AND 0xFFF) = v" if "?n < 4"
    using that u(1) unfolding at by (metis mod_less of_nat_unat_u32)
  have highv: "of_nat (4194304 * (?n mod 4) + 4096 * ?j) + (v AND 0xFFF) = v - 0xC0000000"
    if "768 \<le> ?n \<and> ?n < 772"
  proof -
    define m where "m = ?n - 768"
    then have "?n = 768 + m" "m < 4" using that by linarith+
    moreover from this have "(768 + m) mod 4 = m" by presburger
    ultimately have "4194304 * (?n mod 4) + 4096 * ?j + ?f = unat v - 0xC0000000"
      using u(1) by simp
    moreover have "unat (v - 0xC0000000) = unat v - 0xC0000000"
      using high that by (simp add: word_le_nat_alt unat_sub)
    ultimately show ?thesis unfolding at by (metis of_nat_unat_u32)
  qed
  show ?thesis
    using pg lowv highv unfolding vmm_init_translate [OF assms] low high by (simp add: vmm_init_mem(4))
qed

text \<open>C10: after \<^verbatim>\<open>vmm_init\<close> paging is on and the translation is exactly the intended one: the
  first 16 MB are mapped to themselves and once more at 3 GB, and every other address faults.
  The loop over 4096 entries of the first table row fills all four rows.\<close>

theorem vmm_init_maps:
  assumes "vmm_layout L"
  shows "fst (vmm_init L k) = 1 \<and> bit (cr0 (snd (vmm_init L k))) 31
    \<and> mmu_translate (snd (vmm_init L k)) v =
      (if v < 0x1000000 then Some v
       else if 0xC0000000 \<le> v \<and> v < 0xC1000000 then Some (v - 0xC0000000)
       else None)"
  by (rule vmm_init_walk [OF assms])

theorem vmm_init_maps_witness:
  "mmu_translate (snd (vmm_init example_layout (boot_kernel (\<lambda>_. 0) (\<lambda>_. 0) (\<lambda>_ _. 0)))) 0xC0100004 = Some 0x100004
   \<and> mmu_translate (snd (vmm_init example_layout (boot_kernel (\<lambda>_. 0) (\<lambda>_. 0) (\<lambda>_ _. 0)))) 0x1000000 = None"
  using vmm_init_maps [OF example_layout_ok, of "boot_kernel (\<lambda>_. 0) (\<lambda>_. 0) (\<lambda>_ _. 0)" "0xC0100004"]
    vmm_init_maps [OF example_layout_ok, of "boot_kernel (\<lambda>_. 0) (\<lambda>_. 0) (\<lambda>_ _. 0)" "0x1000000"]
  by simp

text \<open>C12: where a page table exists, \<^verbatim>\<open>vmm_map\<close> of aligned addresses succeeds, invalidates the
  page, and changes the translation of exactly the addresses that share the page's table
  entry: they translate by the entry made of the frame and the flags, all others as before.\<close>

theorem vmm_map_translation:
  assumes "vmm_ok L k" and "virt mod PAGE_SIZE = 0" and "phys mod PAGE_SIZE = 0"
    and "vmm_slot L k virt = Some a"
  shows "let (r, k') = vmm_map L virt phys flags k
         in r = 0 \<and> vmm_ok L k' \<and> invlpg_log k' = invlpg_log k @ [virt]
            \<and> mmu_translate k' w =
                (if vmm_slot L k w = Some a then entry_translate (phys OR flags) w
                 else mmu_translate k w)"
  using vmm_map_present [OF assms(2-4)] mmu_put [OF assms(1,4)] pages.put_ok [OF assms(1,4)]
  by simp

text \<open>The windows of \<^verbatim>\<open>vmm_init\<close> share their tables: mapping the page at 0x5000 moves the page at
  0xC0005000 with it.\<close>

theorem vmm_map_translation_witness:
  "let k' = snd (vmm_map example_layout 0x5000 0x7000 3
      (snd (vmm_init example_layout (boot_kernel (\<lambda>_. 0) (\<lambda>_. 0) (\<lambda>_ _. 0)))))
   in mmu_translate k' 0x5008 = Some 0x7008 \<and> mmu_translate k' 0xC0005008 = Some 0x7008"
proof -
  let ?k = "snd (vmm_init example_layout (boot_kernel (\<lambda>_. 0) (\<lambda>_. 0) (\<lambda>_ _. 0)))"
  have s: "vmm_slot example_layout ?k v = Some 0x109014" if "v \<in> {0x5000, 0x5008, 0xC0005008}" for v
    using that by (auto simp: vmm_init_slot [OF example_layout_ok] drop_bit_eq_div unat_div)
      (simp_all add: pt_cell_def example_layout_def)
  note m = vmm_map_translation [OF vmm_init_ok [OF example_layout_ok] _ _ s [of "0x5000"],
    where phys = "0x7000" and flags = 3]
  show ?thesis
    using m [where w = "0x5008"] m [where w = "0xC0005008"]
    by (simp add: s PAGE_SIZE_def entry_translate_def PAGE_PRESENT_def case_prod_unfold Let_def)
qed

text \<open>\<^verbatim>\<open>vmm_get_phys\<close> against the walk.\<close>

lemma vmm_get_phys_walk:
  assumes "vmm_ok L k"
  shows "vmm_get_phys L v k = (case mmu_translate k v of None \<Rightarrow> 0 | Some p \<Rightarrow> p AND 0xFFFFF000)"
  unfolding vmm_get_phys_slot mmu_slot [OF assms] slot_translate_def
  by (auto simp: entry_translate_def offset_less_page split: option.splits)

text \<open>C22: \<^verbatim>\<open>vmm_get_phys\<close> returns the frame the page walk of the processor reaches, and 0 where the walk
  faults. It drops the offset in the page: where the walk succeeds, its result is the physical address of
  exactly the first byte of a page, not the documented address for any other.\<close>

theorem vmm_get_phys_is_walk:
  assumes "vmm_ok L k"
  shows "vmm_get_phys L v k = (case mmu_translate k v of None \<Rightarrow> 0 | Some p \<Rightarrow> p AND 0xFFFFF000)
    \<and> (\<forall>p. mmu_translate k v = Some p \<longrightarrow> (vmm_get_phys L v k = p \<longleftrightarrow> v mod 4096 = 0))"
proof -
  have off: "take_bit 12 p = take_bit 12 v" if "mmu_translate k v = Some p" for p
    using that unfolding mmu_slot [OF assms] slot_translate_def
    by (auto simp: entry_translate_def page_mask offset_mask bit_simps split: option.splits if_splits
        intro!: bit_word_eqI)
  have "p AND 0xFFFFF000 = p \<longleftrightarrow> take_bit 12 p = 0" for p :: u32
    using page_part_aligned [of p] page_part_id [of p] page_aligned_iff [of p] by metis
  then show ?thesis using vmm_get_phys_walk [OF assms, of v] off by (auto simp: page_aligned_iff)
qed

theorem vmm_get_phys_is_walk_witness:
  "vmm_get_phys example_layout 0xC0100004
     (snd (vmm_init example_layout (boot_kernel (\<lambda>_. 0) (\<lambda>_. 0) (\<lambda>_ _. 0)))) = 0x100000"
proof -
  let ?k = "snd (vmm_init example_layout (boot_kernel (\<lambda>_. 0) (\<lambda>_. 0) (\<lambda>_ _. 0)))"
  have "mmu_translate ?k 0xC0100004 = Some 0x100004"
    by (simp add: vmm_init_translate [OF example_layout_ok] drop_bit_eq_div unat_div)
  then show ?thesis
    using vmm_get_phys_is_walk [OF vmm_init_ok [OF example_layout_ok], of "0xC0100004"] by simp
qed

text \<open>C23: the round trip: after \<^verbatim>\<open>vmm_map\<close> of a page with its present flag set, \<^verbatim>\<open>vmm_get_phys\<close>
  returns the frame for every address of the page; \<^verbatim>\<open>vmm_unmap\<close> then succeeds, the addresses that share
  the entry of the page fault, every other address translates as it did before the two calls,
  and a second \<^verbatim>\<open>vmm_unmap\<close> is refused without a change.\<close>

theorem vmm_map_unmap_roundtrip:
  assumes "vmm_ok L k" and "virt mod PAGE_SIZE = 0" and "phys mod PAGE_SIZE = 0"
    and "vmm_slot L k virt = Some a" and "flags < 4096" and "flags AND PAGE_PRESENT \<noteq> 0"
    and "vmm_slot L k v = Some a"
  shows "let k1 = snd (vmm_map L virt phys flags k); (r, k2) = vmm_unmap L virt k1
         in vmm_get_phys L v k1 = phys
            \<and> r = 0 \<and> vmm_get_phys L v k2 = 0
            \<and> mmu_translate k2 w = (if vmm_slot L k w = Some a then None else mmu_translate k w)
            \<and> vmm_unmap L virt k2 = (-1, k2)"
proof -
  let ?k1 = "snd (vmm_map L virt phys flags k)"
  have k1: "?k1 = (put_entry a (phys OR flags) k)\<lparr>invlpg_log := invlpg_log k @ [virt]\<rparr>"
    using vmm_map_present [OF assms(2-4)] by simp
  have p: "phys mod 4096 = 0" using assms(3) by (simp add: PAGE_SIZE_def)
  have e: "load32 (mem ?k1) a = phys OR flags" "(phys OR flags) AND PAGE_PRESENT \<noteq> 0"
      "(phys OR flags) AND 0xFFFFF000 = phys"
    using assms(5,6) entry_present [OF p, of flags] p by (simp_all add: k1 put_entry_def PAGE_PRESENT_def)
  have s1: "vmm_slot L ?k1 w = vmm_slot L k w" for w
    using vmm_slot_put [OF assms(1,4)] by (simp add: k1 vmm_slot_def)
  let ?k2 = "(put_entry a 0 ?k1)\<lparr>invlpg_log := invlpg_log ?k1 @ [virt]\<rparr>"
  have ok1: "vmm_ok L ?k1" using pages.put_ok [OF assms(1,4)] by (simp add: k1)
  have u: "vmm_unmap L virt ?k1 = (0, ?k2)" by (simp add: vmm_unmap_slot s1 assms(4) e)
  have s2: "vmm_slot L ?k2 w = vmm_slot L k w" for w
    using vmm_slot_put [OF ok1, of virt a] s1 assms(4) by (simp add: vmm_slot_def)
  have z: "load32 (mem ?k2) a = 0" by (simp add: put_entry_def)
  have "vmm_get_phys L v ?k2 = 0" "vmm_unmap L virt ?k2 = (-1, ?k2)"
    using z by (simp_all add: vmm_get_phys_slot vmm_unmap_slot s2 assms(4,7))
  moreover have "mmu_translate ?k2 w = (if vmm_slot L k w = Some a then None else mmu_translate k w)"
    using mmu_put [OF ok1, of virt a 0 w] mmu_put [OF assms(1,4), of "phys OR flags" w]
    by (simp add: s1 assms(4) entry_translate_def) (simp add: k1)
  ultimately show ?thesis by (simp add: u vmm_get_phys_slot s1 assms(7) e)
qed

theorem vmm_map_unmap_roundtrip_witness:
  "let k1 = snd (vmm_map example_layout 0x5000 0x7000 3
      (snd (vmm_init example_layout (boot_kernel (\<lambda>_. 0) (\<lambda>_. 0) (\<lambda>_ _. 0)))))
   in vmm_get_phys example_layout 0x5008 k1 = 0x7000 \<and> fst (vmm_unmap example_layout 0x5000 k1) = 0"
proof -
  let ?k = "snd (vmm_init example_layout (boot_kernel (\<lambda>_. 0) (\<lambda>_. 0) (\<lambda>_ _. 0)))"
  have s: "vmm_slot example_layout ?k v = Some 0x109014" if "v \<in> {0x5000, 0x5008}" for v
    using that by (auto simp: vmm_init_slot [OF example_layout_ok] drop_bit_eq_div unat_div)
      (simp_all add: pt_cell_def example_layout_def)
  show ?thesis
    using vmm_map_unmap_roundtrip [OF vmm_init_ok [OF example_layout_ok] _ _ s [of "0x5000"],
      where phys = "0x7000" and flags = 3, OF _ _ _ _ _ s [of "0x5008"]]
    by (simp add: PAGE_SIZE_def PAGE_PRESENT_def case_prod_unfold Let_def)
qed







lemma boot_memory_state:
  fixes n :: u32 and k0 :: kernel
  assumes "vmm_layout_low L"
  defines "k \<equiv> snd (vmm_init L (snd (pmm_init n k0)))"
  shows "pmm_inv k" and "allocated_frames k = {}" and "frame_count k = unat n div 4096"
  using vmm_init_pmm [OF assms(1) pmm_init_inv]
  by (simp_all add: k_def pmm_init_frames pmm_init_count)


text \<open>Right after \<^verbatim>\<open>pmm_init\<close> and \<^verbatim>\<open>vmm_init\<close>, the first \<^verbatim>\<open>vmm_map\<close> outside the two windows
  fails: the page table it needs would be frame 0, whose address it takes for a failure. No
  translation changes, and frame 0 stays allocated.\<close>

lemma first_map_outside_windows_fails:
  assumes "vmm_layout_low L" and "4096 \<le> n" and "virt mod PAGE_SIZE = 0" and "phys mod PAGE_SIZE = 0"
    and "0x1000000 \<le> virt" and "virt < 0xC0000000 \<or> 0xC1000000 \<le> virt"
  shows "let k = snd (vmm_init L (snd (pmm_init n k0))); (r, k1) = vmm_map L virt phys flags k
         in r = -1 \<and> allocated_frames k1 = {0} \<and> vmm_get_phys L virt k1 = 0"
proof -
  let ?k = "snd (vmm_init L (snd (pmm_init n k0)))"
  have L: "vmm_layout L" using assms(1) by (simp add: vmm_layout_low_def)
  note u = unat_split_address [of virt]
  have out: "\<not> (unat (drop_bit 22 virt) < 4 \<or> 768 \<le> unat (drop_bit 22 virt) \<and> unat (drop_bit 22 virt) < 772)"
    using assms(5,6) u by (simp add: word_less_nat_alt word_le_nat_alt) linarith
  then have s: "vmm_slot L ?k virt = None" by (simp add: vmm_init_slot [OF L])
  note b = boot_memory_state [OF assms(1), of n k0]
  have "0 < unat n div 4096" using assms(2) by (simp add: word_le_nat_alt div_greater_zero_iff)
  then have a: "fst (pmm_alloc ?k) = 0" "allocated_frames (snd (pmm_alloc ?k)) = {0}"
    using pmm_alloc_abs(1,2) [OF b(1), of 0] b(2,3) by simp_all
  have m: "vmm_map L virt phys flags ?k = (-1, snd (pmm_alloc ?k))"
    using vmm_map_absent [OF assms(3,4) s, of 0 "snd (pmm_alloc ?k)"] a(1) by (simp add: prod_eq_iff)
  have "load32 (mem (snd (pmm_alloc ?k))) (pd_cell L (drop_bit 22 virt))
      = load32 (mem ?k) (pd_cell L (drop_bit 22 virt))"
    unfolding pd_cell_def
    by (rule alloc_keeps_cell [OF b(1)])
       (use assms(1) L pd_index_less in \<open>auto simp: vmm_layout_low_def word_less_nat_alt\<close>)
  then have "vmm_slot L (snd (pmm_alloc ?k)) virt = None" using s by (simp add: vmm_slot_def)
  then show ?thesis using m a(2) by (simp add: vmm_get_phys_slot)
qed

lemma example_layout_low: "vmm_layout_low example_layout"
  using example_layout_ok by (simp add: vmm_layout_low_def) (simp add: example_layout_def)

lemma first_map_outside_windows_fails_witness:
  "fst (vmm_map example_layout 0x40000000 0x5000 3
      (snd (vmm_init example_layout (snd (pmm_init 0x8000000 (boot_kernel (\<lambda>_. 0) (\<lambda>_. 0) (\<lambda>_ _. 0)))))))
     = -1"
  using first_map_outside_windows_fails [OF example_layout_low, of "0x8000000" "0x40000000" "0x5000"
    "boot_kernel (\<lambda>_. 0) (\<lambda>_. 0) (\<lambda>_ _. 0)" 3]
  by (simp add: PAGE_SIZE_def case_prod_unfold Let_def)



end
