(* ===== verification/Gdt.thy ===== *)
theory Gdt
  imports Kernel_State
begin

text \<open>
  The segment descriptors, \<^verbatim>\<open>src/kernel/arch/x86/gdt.c\<close>. The lemmas read the six entries the way
  the processor does: base, limit, granularity, operand size and descriptor type.
\<close>

section \<open>The code\<close>

definition SEG_ACCESS_PRESENT :: u8 where "SEG_ACCESS_PRESENT = 0x80"
definition SEG_ACCESS_PRIVILEGE_0 :: u8 where "SEG_ACCESS_PRIVILEGE_0 = 0x00"
definition SEG_ACCESS_PRIVILEGE_3 :: u8 where "SEG_ACCESS_PRIVILEGE_3 = 0x60"
definition SEG_ACCESS_CODE :: u8 where "SEG_ACCESS_CODE = 0x08"
definition SEG_ACCESS_DATA :: u8 where "SEG_ACCESS_DATA = 0x00"
definition SEG_ACCESS_READABLE :: u8 where "SEG_ACCESS_READABLE = 0x02"
definition SEG_ACCESS_WRITABLE :: u8 where "SEG_ACCESS_WRITABLE = 0x02"
definition SEG_FLAG_GRANULARITY :: u8 where "SEG_FLAG_GRANULARITY = 0x08"
definition SEG_FLAG_32BIT :: u8 where "SEG_FLAG_32BIT = 0x04"

lemmas seg_defs = SEG_ACCESS_PRESENT_def SEG_ACCESS_PRIVILEGE_0_def SEG_ACCESS_PRIVILEGE_3_def
  SEG_ACCESS_CODE_def SEG_ACCESS_DATA_def SEG_ACCESS_READABLE_def SEG_ACCESS_WRITABLE_def
  SEG_FLAG_GRANULARITY_def SEG_FLAG_32BIT_def

text \<open>The assignments to the fields of \<^verbatim>\<open>gdt[index]\<close>; the expression for \<open>limit_high\<close> is computed
  in \<^verbatim>\<open>int\<close> and truncated to the byte.\<close>

definition gdt_set_entry :: "u32 \<Rightarrow> u32 \<Rightarrow> u32 \<Rightarrow> u8 \<Rightarrow> u8 \<Rightarrow> kernel \<Rightarrow> kernel" where
  "gdt_set_entry index base limit access flags k =
     (if index \<ge> 6 then k
      else k\<lparr>gdt := (gdt k)[unat index :=
        \<lparr>limit_low = ucast (limit AND 0xFFFF),
         base_low = ucast (base AND 0xFFFF),
         base_mid = ucast (drop_bit 16 base AND 0xFF),
         gdt_access = access,
         limit_high = ucast ((drop_bit 16 limit AND 0x0F) OR push_bit 4 (ucast (flags AND 0xF0) :: u32)),
         base_high = ucast (drop_bit 24 base AND 0xFF)\<rparr>]\<rparr>)"

text \<open>The assembly stub, with every load of a segment register taken to succeed: \<^verbatim>\<open>lgdt\<close>, a far jump to
  selector 0x08, and 0x10 in the data segment registers. What a processor that checks the
  descriptors makes of it is \<open>gdt_flush_checked\<close> below.\<close>

definition gdt_flush_asm :: "kernel \<Rightarrow> kernel" where
  "gdt_flush_asm k = k\<lparr>gdtr := gdt_ptr k, seg_cs := 0x08, seg_data := 0x10\<rparr>"

text \<open>\<^verbatim>\<open>gdt_init\<close> up to the call of the stub, and the whole of it.\<close>

definition gdt_fill :: "layout \<Rightarrow> kernel \<Rightarrow> kernel" where
  "gdt_fill L k =
     (let k = k\<lparr>gdt_ptr := \<lparr>ptr_limit = 6 * 8 - 1, ptr_base = gdt_addr L\<rparr>\<rparr>;
          k = gdt_set_entry 0 0 0 0 0 k;
          k = gdt_set_entry 1 0 0xFFFFFFFF
                (SEG_ACCESS_PRESENT OR SEG_ACCESS_PRIVILEGE_0 OR SEG_ACCESS_CODE OR SEG_ACCESS_READABLE)
                (SEG_FLAG_GRANULARITY OR SEG_FLAG_32BIT) k;
          k = gdt_set_entry 2 0 0xFFFFFFFF
                (SEG_ACCESS_PRESENT OR SEG_ACCESS_PRIVILEGE_0 OR SEG_ACCESS_DATA OR SEG_ACCESS_WRITABLE)
                (SEG_FLAG_GRANULARITY OR SEG_FLAG_32BIT) k;
          k = gdt_set_entry 3 0 0xFFFFFFFF
                (SEG_ACCESS_PRESENT OR SEG_ACCESS_PRIVILEGE_3 OR SEG_ACCESS_CODE OR SEG_ACCESS_READABLE)
                (SEG_FLAG_GRANULARITY OR SEG_FLAG_32BIT) k;
          k = gdt_set_entry 4 0 0xFFFFFFFF
                (SEG_ACCESS_PRESENT OR SEG_ACCESS_PRIVILEGE_3 OR SEG_ACCESS_DATA OR SEG_ACCESS_WRITABLE)
                (SEG_FLAG_GRANULARITY OR SEG_FLAG_32BIT) k;
          k = gdt_set_entry 5 0 0xFFFFFFFF
                (SEG_ACCESS_PRESENT OR SEG_ACCESS_PRIVILEGE_0)
                (SEG_FLAG_GRANULARITY OR SEG_FLAG_32BIT) k
      in k)"

definition gdt_init :: "layout \<Rightarrow> kernel \<Rightarrow> int \<times> kernel" where
  "gdt_init L k = (1, gdt_flush_asm (gdt_fill L k))"

section \<open>How the processor reads a descriptor\<close>

definition desc_base :: "gdt_entry_t \<Rightarrow> u32" where
  "desc_base e = ucast (base_low e) OR push_bit 16 (ucast (base_mid e)) OR push_bit 24 (ucast (base_high e))"

definition desc_limit :: "gdt_entry_t \<Rightarrow> u32" where
  "desc_limit e = ucast (limit_low e) OR push_bit 16 (ucast (limit_high e) AND 0x0F)"

definition desc_flags :: "gdt_entry_t \<Rightarrow> u8" where
  "desc_flags e = drop_bit 4 (limit_high e)"

text \<open>The last byte offset that may be used: the limit counts bytes, or pages when the
  granularity flag is set.\<close>

definition desc_last_offset :: "gdt_entry_t \<Rightarrow> u32" where
  "desc_last_offset e =
     (if bit (limit_high e) 7 then push_bit 12 (desc_limit e) OR 0xFFF else desc_limit e)"

text \<open>Operand size 32 bits, and a code or data descriptor (as opposed to a system one).\<close>

definition desc_is_32bit :: "gdt_entry_t \<Rightarrow> bool" where
  "desc_is_32bit e \<longleftrightarrow> bit (limit_high e) 6"

definition desc_is_code_or_data :: "gdt_entry_t \<Rightarrow> bool" where
  "desc_is_code_or_data e \<longleftrightarrow> bit (gdt_access e) 4"

section \<open>The checks of the processor\<close>

text \<open>In protected mode a selector may be loaded only if its descriptor is present, of privilege 0 here,
  and of the right type: a code segment for the far jump, a writable data segment for \<^verbatim>\<open>SS\<close>, which
  the other data registers then accept too. Otherwise the load raises a protection fault.\<close>

definition code_load_ok :: "gdt_entry_t \<Rightarrow> bool" where
  "code_load_ok e \<longleftrightarrow> bit (gdt_access e) 7 \<and> \<not> bit (gdt_access e) 6 \<and> \<not> bit (gdt_access e) 5
     \<and> desc_is_code_or_data e \<and> bit (gdt_access e) 3"

definition stack_load_ok :: "gdt_entry_t \<Rightarrow> bool" where
  "stack_load_ok e \<longleftrightarrow> bit (gdt_access e) 7 \<and> \<not> bit (gdt_access e) 6 \<and> \<not> bit (gdt_access e) 5
     \<and> desc_is_code_or_data e \<and> \<not> bit (gdt_access e) 3 \<and> bit (gdt_access e) 1"

text \<open>The stub on such a processor: \<open>Inl\<close> is the state in which the fault is raised.\<close>

definition gdt_flush_checked :: "kernel \<Rightarrow> kernel + kernel" where
  "gdt_flush_checked k =
     (let k = k\<lparr>gdtr := gdt_ptr k\<rparr>
      in if \<not> code_load_ok (gdt k ! 1) then Inl k
         else let k = k\<lparr>seg_cs := 0x08\<rparr>
              in if \<not> stack_load_ok (gdt k ! 2) then Inl k else Inr (k\<lparr>seg_data := 0x10\<rparr>))"

definition gdt_init_checked :: "layout \<Rightarrow> kernel \<Rightarrow> kernel + int \<times> kernel" where
  "gdt_init_checked L k = (case gdt_flush_checked (gdt_fill L k) of Inl k \<Rightarrow> Inl k | Inr k \<Rightarrow> Inr (1, k))"

text \<open>Where the checks pass, the two readings of the stub agree.\<close>

lemma gdt_init_checked_passes:
  "gdt_init_checked L k = Inr r \<Longrightarrow> gdt_init L k = r"
  by (auto simp: gdt_init_checked_def gdt_flush_checked_def gdt_init_def gdt_flush_asm_def Let_def
      split: if_splits)

section \<open>Properties\<close>

lemma mask_16_u32: "(0xFFFF :: u32) = mask 16" and mask_8_u32: "(0xFF :: u32) = mask 8"
  and mask_4_u32: "(0x0F :: u32) = mask 4" and mask_20_u32: "(0xFFFFF :: u32) = mask 20"
  by (simp_all add: mask_eq_exp_minus_1)

lemma high_nibble_shifted_out: "drop_bit 4 (ucast (take_bit 4 l OR push_bit 4 (ucast ((f :: u8) AND 0xF0) :: u32)) :: u8) = 0"
proof -
  define g where "g = f AND (0xF0 :: u8)"
  have m: "(0xF0 :: u8) = NOT (mask 4)" by (simp add: mask_eq_exp_minus_1)
  have "\<not> bit g n" if "n < 4" for n using that unfolding g_def m by (simp add: bit_simps)
  then show ?thesis
    unfolding g_def [symmetric] by (intro bit_word_eqI) (auto simp: bit_simps)
qed

text \<open>\<^verbatim>\<open>gdt_set_entry\<close> on an index below 6 stores a descriptor from which the processor reads back
  the base and the access byte given and the low 20 bits of the limit, and leaves the other
  descriptors alone; from 6 on it does nothing. The flags are lost: whatever is passed, the flag
  nibble of the descriptor is 0.\<close>

lemma gdt_set_entry_reads_back:
  fixes index base limit :: u32 and access flags :: u8
  assumes "length (gdt k) = 6"
  defines "k' \<equiv> gdt_set_entry index base limit access flags k"
  shows "if index < 6
    then (\<forall>i<6. if i = unat index
           then desc_base (gdt k' ! i) = base \<and> gdt_access (gdt k' ! i) = access
             \<and> desc_limit (gdt k' ! i) = limit AND 0xFFFFF \<and> desc_flags (gdt k' ! i) = 0
           else gdt k' ! i = gdt k ! i)
    else k' = k"
proof (cases "index < 6")
  case True
  then have i: "unat index < length (gdt k)" using assms(1) by (simp add: word_less_nat_alt)
  let ?e = "gdt k' ! unat index"
  have e: "?e = \<lparr>limit_low = ucast (limit AND 0xFFFF), base_low = ucast (base AND 0xFFFF),
         base_mid = ucast (drop_bit 16 base AND 0xFF), gdt_access = access,
         limit_high = ucast ((drop_bit 16 limit AND 0x0F) OR push_bit 4 (ucast (flags AND 0xF0) :: u32)),
         base_high = ucast (drop_bit 24 base AND 0xFF)\<rparr>"
    using True i by (simp add: k'_def gdt_set_entry_def)
  have "desc_base ?e = base"
  proof (rule bit_word_eqI)
    fix n
    assume "n < LENGTH(32)"
    then show "bit (desc_base ?e) n = bit base n"
      unfolding e desc_base_def mask_16_u32 mask_8_u32
      by (cases "n < 16"; cases "n < 24") (auto simp: bit_simps)
  qed
  moreover have "desc_limit ?e = limit AND 0xFFFFF"
    unfolding e desc_limit_def mask_16_u32 mask_4_u32 mask_20_u32
    by (rule bit_word_eqI) (auto simp: bit_simps)
  moreover have "desc_flags ?e = 0"
    unfolding e desc_flags_def mask_4_u32 using high_nibble_shifted_out by (simp only: take_bit_eq_mask gdt_entry_t.simps)
  moreover have "gdt_access ?e = access" unfolding e by simp
  moreover have "gdt k' ! i = gdt k ! i" if "i \<noteq> unat index" for i
    using that True by (simp add: k'_def gdt_set_entry_def)
  ultimately show ?thesis using True by simp
next
  case False
  then show ?thesis by (simp add: k'_def gdt_set_entry_def)
qed

lemma gdt_set_entry_reads_back_witness:
  "desc_base (gdt (gdt_set_entry 2 0x12345678 0xABCDE 0x92 0xC0 (boot_kernel (\<lambda>_. 0) (\<lambda>_. 0) (\<lambda>_ _. 0))) ! 2) = 0x12345678
   \<and> desc_flags (gdt (gdt_set_entry 2 0x12345678 0xABCDE 0x92 0xC0 (boot_kernel (\<lambda>_. 0) (\<lambda>_. 0) (\<lambda>_ _. 0))) ! 2) = 0"
proof -
  have "length (gdt (boot_kernel (\<lambda>_. 0) (\<lambda>_. 0) (\<lambda>_ _. 0))) = 6" by (simp add: boot_kernel_def)
  from gdt_set_entry_reads_back [OF this, of 2 "0x12345678" "0xABCDE" "0x92" "0xC0"] show ?thesis
    by (auto dest!: spec [of _ 2])
qed

text \<open>They never pass: the descriptors \<^verbatim>\<open>gdt_init\<close> stores are system descriptors, and the far jump faults
  right after \<^verbatim>\<open>lgdt\<close>, with \<^verbatim>\<open>CS\<close> and the data registers still those of the boot loader.\<close>

lemma gdt_init_checked_faults:
  assumes "length (gdt k) = 6"
  shows "gdt_init_checked L k = Inl ((gdt_fill L k)\<lparr>gdtr := \<lparr>ptr_limit = 47, ptr_base = gdt_addr L\<rparr>\<rparr>)"
proof -
  have "gdt_ptr (gdt_fill L k) = \<lparr>ptr_limit = 47, ptr_base = gdt_addr L\<rparr>"
    by (simp add: gdt_fill_def gdt_set_entry_def Let_def)
  moreover have "gdt_access (gdt (gdt_fill L k) ! 1) = 0x8A"
    using assms by (simp add: gdt_fill_def gdt_set_entry_def Let_def seg_defs word_le_nat_alt)
  ultimately show ?thesis
    by (simp add: gdt_init_checked_def gdt_flush_checked_def code_load_ok_def desc_is_code_or_data_def Let_def)
qed

text \<open>C25: the table \<^verbatim>\<open>gdt_init\<close> builds is not the flat 32-bit model its documentation names: after it the
  five segments have base 0, but every one ends after its first megabyte (the kernel is linked
  from there on), has 16-bit operand size, and is marked as a system descriptor, so that none is a
  code or data segment; \<^verbatim>\<open>CS\<close> and the data registers select two of them.\<close>

theorem gdt_init_segments:
  assumes "length (gdt k) = 6"
  shows "fst (gdt_init L k) = 1
    \<and> gdtr (snd (gdt_init L k)) = \<lparr>ptr_limit = 47, ptr_base = gdt_addr L\<rparr>
    \<and> seg_cs (snd (gdt_init L k)) = 8 \<and> seg_data (snd (gdt_init L k)) = 16
    \<and> (\<forall>e\<in>set (drop 1 (gdt (snd (gdt_init L k)))).
        bit (gdt_access e) 7 \<and> desc_base e = 0 \<and> desc_last_offset e = 0xFFFFF
        \<and> \<not> desc_is_32bit e \<and> \<not> desc_is_code_or_data e)"
proof -
  let ?e = "\<lambda>a. \<lparr>limit_low = 0xFFFF, base_low = 0, base_mid = 0, gdt_access = a, limit_high = 0x0F, base_high = 0\<rparr>"
  have seg: "desc_base (?e a) = 0" "desc_last_offset (?e a) = 0xFFFFF" "\<not> desc_is_32bit (?e a)"
      "desc_is_code_or_data (?e a) = bit a 4" for a
    by (simp_all add: desc_base_def desc_last_offset_def desc_limit_def desc_is_32bit_def desc_is_code_or_data_def)
  have "gdt k = [gdt k ! 0, gdt k ! 1, gdt k ! 2, gdt k ! 3, gdt k ! 4, gdt k ! 5]"
    using assms by (intro nth_equalityI) (auto simp: less_Suc_eq numeral_eq_Suc)
  then obtain a b c d e f where "gdt k = [a, b, c, d, e, f]" by blast
  then show ?thesis
    by (simp add: gdt_init_def gdt_fill_def gdt_set_entry_def gdt_flush_asm_def Let_def
        seg seg_defs word_le_nat_alt drop_bit_eq_div)
qed

theorem gdt_init_segments_witness:
  "\<exists>e\<in>set (gdt (snd (gdt_init \<lparr>kernel_page_directory = 0x108000, kernel_page_tables = 0x109000,
       gdt_addr = 0x10D000, idt_addr = 0x10D100, isr_stub = (\<lambda>_. 0), irq_stub = (\<lambda>_. 0)\<rparr>
       (boot_kernel (\<lambda>_. 0) (\<lambda>_. 0) (\<lambda>_ _. 0))))). desc_last_offset e = 0xFFFFF"
proof -
  let ?L = "\<lparr>kernel_page_directory = 0x108000, kernel_page_tables = 0x109000,
       gdt_addr = 0x10D000, idt_addr = 0x10D100, isr_stub = (\<lambda>_. 0), irq_stub = (\<lambda>_. 0)\<rparr>"
  let ?k = "boot_kernel (\<lambda>_. 0) (\<lambda>_. 0) (\<lambda>_ _. 0)"
  have l: "length (gdt ?k) = 6" by (simp add: boot_kernel_def)
  then have "length (gdt (snd (gdt_init ?L ?k))) = 6"
    by (simp add: gdt_init_def gdt_fill_def gdt_set_entry_def gdt_flush_asm_def Let_def)
  then have "drop 1 (gdt (snd (gdt_init ?L ?k))) \<noteq> []" by simp
  then obtain e where "e \<in> set (drop 1 (gdt (snd (gdt_init ?L ?k))))" by (meson last_in_set)
  then show ?thesis using gdt_init_segments [OF l, of ?L] by (meson in_set_dropD)
qed

end
