(* ===== verification/Vga.thy ===== *)
theory Vga
  imports Kernel_State
begin

text \<open>
  The VGA text driver, \<^verbatim>\<open>src/kernel/drivers/vga.c\<close>: the 80 by 25 screen as cells of 16 bits, a
  cursor, and the hardware cursor behind the ports 0x3D4 and 0x3D5. The specification is a
  terminal: a list of 2000 cells with a position in it. The driver refines it, character by
  character and, through the contract \<open>char_sink\<close>, string by string.
\<close>

section \<open>The code\<close>

definition VGA_WIDTH :: nat where "VGA_WIDTH = 80"
definition VGA_HEIGHT :: nat where "VGA_HEIGHT = 25"

definition VGA_COLOR_BLACK :: u8 where "VGA_COLOR_BLACK = 0"
definition VGA_COLOR_GREEN :: u8 where "VGA_COLOR_GREEN = 2"
definition VGA_COLOR_CYAN :: u8 where "VGA_COLOR_CYAN = 3"
definition VGA_COLOR_RED :: u8 where "VGA_COLOR_RED = 4"
definition VGA_COLOR_YELLOW :: u8 where "VGA_COLOR_YELLOW = 14"
definition VGA_COLOR_WHITE :: u8 where "VGA_COLOR_WHITE = 15"

text \<open>A C string: \<open>None\<close> is the null pointer, otherwise the bytes at the pointer; the string ends
  before the first zero byte (or at the end of the list, for a literal). \<open>lit\<close> is a literal.\<close>

type_synonym c_string = "u8 list option"

definition lit :: "string \<Rightarrow> c_string" where
  "lit s = Some (map of_char s)"

text \<open>\<^verbatim>\<open>cursor_y * VGA_WIDTH + cursor_x\<close>, computed in \<^verbatim>\<open>int\<close> and stored in 16 bits.\<close>

definition vga_index :: "vga_t \<Rightarrow> u16" where
  "vga_index s = of_nat (unat (cursor_y s) * VGA_WIDTH + unat (cursor_x s))"

definition update_hardware_cursor :: "kernel \<Rightarrow> kernel" where
  "update_hardware_cursor k =
     (let pos = vga_index (vga_state k);
          k1 = outb 0x3D5 (ucast (drop_bit 8 pos)) (outb 0x3D4 0x0E k)
      in outb 0x3D5 (ucast (pos AND 0xFF)) (outb 0x3D4 0x0F k1))"

definition vga_blank :: u16 where
  "vga_blank = push_bit 8 (ucast (push_bit 4 VGA_COLOR_BLACK OR VGA_COLOR_WHITE)) OR 0x20"

definition vga_scroll_up :: "kernel \<Rightarrow> kernel" where
  "vga_scroll_up k =
     (let b0 = vga_buffer (vga_state k);
          b1 = fold (\<lambda>y b. fold (\<lambda>x b.
                 b(of_nat (y * VGA_WIDTH + x) := b (of_nat ((y + 1) * VGA_WIDTH + x))))
                 [0..<VGA_WIDTH] b) [0..<VGA_HEIGHT - 1] b0;
          b2 = fold (\<lambda>x b. b(of_nat ((VGA_HEIGHT - 1) * VGA_WIDTH + x) := vga_blank)) [0..<VGA_WIDTH] b1
      in k\<lparr>vga_state := (vga_state k)\<lparr>vga_buffer := b2\<rparr>\<rparr>)"

text \<open>The end of a line: \<^verbatim>\<open>cursor_y++\<close>, and scrolling when it leaves the screen; the two copies in
  \<^verbatim>\<open>vga_putchar\<close> differ in the order of the assignments to the two coordinates only.\<close>

definition vga_next_line :: "kernel \<Rightarrow> kernel" where
  "vga_next_line k =
     (let k1 = k\<lparr>vga_state := (vga_state k)\<lparr>cursor_y := cursor_y (vga_state k) + 1, cursor_x := 0\<rparr>\<rparr>
      in if unat (cursor_y (vga_state k1)) \<ge> VGA_HEIGHT
         then let k2 = vga_scroll_up k1
              in k2\<lparr>vga_state := (vga_state k2)\<lparr>cursor_y := of_nat (VGA_HEIGHT - 1)\<rparr>\<rparr>
         else k1)"

text \<open>The cell for a character: \<^verbatim>\<open>char\<close> is signed, so the operand of the bitwise or is
  sign-extended.\<close>

definition vga_cell :: "u8 \<Rightarrow> u8 \<Rightarrow> u16" where
  "vga_cell ch color = push_bit 8 (ucast color) OR scast ch"

definition vga_putchar :: "u8 \<Rightarrow> u8 \<Rightarrow> kernel \<Rightarrow> kernel" where
  "vga_putchar ch color k =
     update_hardware_cursor
       (if ch = 10 then vga_next_line k
        else
          let s = vga_state k;
              k1 = k\<lparr>vga_state := s\<lparr>vga_buffer := (vga_buffer s)(vga_index s := vga_cell ch color),
                                   cursor_x := cursor_x s + 1\<rparr>\<rparr>
          in if unat (cursor_x (vga_state k1)) \<ge> VGA_WIDTH then vga_next_line k1 else k1)"

fun vga_putbytes :: "u8 list \<Rightarrow> u8 \<Rightarrow> kernel \<Rightarrow> kernel" where
  "vga_putbytes [] color k = k"
| "vga_putbytes (c # cs) color k =
     (if c = 0 then k else vga_putbytes cs color (vga_putchar c color k))"

definition vga_putstr :: "c_string \<Rightarrow> u8 \<Rightarrow> kernel \<Rightarrow> kernel" where
  "vga_putstr str color k = (case str of None \<Rightarrow> k | Some cs \<Rightarrow> vga_putbytes cs color k)"

definition vga_move_cursor :: "u8 \<Rightarrow> u8 \<Rightarrow> kernel \<Rightarrow> kernel" where
  "vga_move_cursor x y k =
     (let x = (if unat x \<ge> VGA_WIDTH then of_nat (VGA_WIDTH - 1) else x);
          y = (if unat y \<ge> VGA_HEIGHT then of_nat (VGA_HEIGHT - 1) else y)
      in update_hardware_cursor (k\<lparr>vga_state := (vga_state k)\<lparr>cursor_x := x, cursor_y := y\<rparr>\<rparr>))"

text \<open>\<^verbatim>\<open>vga_get_cursor\<close> stores the coordinates where the pointers say, unless they are null.\<close>

definition vga_get_cursor :: "u32 \<Rightarrow> u32 \<Rightarrow> kernel \<Rightarrow> kernel" where
  "vga_get_cursor x y k =
     (let k1 = (if x \<noteq> 0 then k\<lparr>mem := (mem k)(x := cursor_x (vga_state k))\<rparr> else k)
      in if y \<noteq> 0 then k1\<lparr>mem := (mem k1)(y := cursor_y (vga_state k1))\<rparr> else k1)"

definition vga_clear :: "kernel \<Rightarrow> kernel" where
  "vga_clear k =
     (let s = vga_state k;
          b = fold (\<lambda>i b. b(of_nat i := vga_blank)) [0..<VGA_WIDTH * VGA_HEIGHT] (vga_buffer s)
      in update_hardware_cursor
           (k\<lparr>vga_state := s\<lparr>vga_buffer := b, cursor_x := 0, cursor_y := 0\<rparr>\<rparr>))"

definition vga_init :: "kernel \<Rightarrow> int \<times> kernel" where
  "vga_init k = (1, vga_clear k)"

section \<open>The terminal\<close>

text \<open>The specification: 2000 cells and a position; writing a cell or ending a line may push the
  position beyond the last cell, then the screen moves up one line.\<close>

type_synonym terminal = "u16 list \<times> nat"

definition term_advance :: "u16 list \<Rightarrow> nat \<Rightarrow> terminal" where
  "term_advance cells p =
     (if p \<ge> 2000 then (drop 80 cells @ replicate 80 vga_blank, p - 80) else (cells, p))"

definition term_put :: "u8 \<Rightarrow> u8 \<Rightarrow> terminal \<Rightarrow> terminal" where
  "term_put color ch t =
     (let (cells, p) = t
      in if ch = 10 then term_advance cells ((p div 80 + 1) * 80)
         else term_advance (cells[p := vga_cell ch color]) (p + 1))"

definition screen_of :: "vga_t \<Rightarrow> terminal" where
  "screen_of s =
     (map (\<lambda>i. vga_buffer s (of_nat i)) [0..<2000], unat (cursor_y s) * 80 + unat (cursor_x s))"

definition vga_ok :: "kernel \<Rightarrow> bool" where
  "vga_ok k \<longleftrightarrow> unat (cursor_x (vga_state k)) < 80 \<and> unat (cursor_y (vga_state k)) < 25"

section \<open>Cells and folds\<close>

lemma of_nat_u16_eq_iff:
  "a < 65536 \<Longrightarrow> b < 65536 \<Longrightarrow> (of_nat a :: u16) = of_nat b \<longleftrightarrow> a = b"
  by (simp add: word_unat_eq_iff unat_of_nat)

lemma fold_offset: "fold (\<lambda>x b. f (m + x) b) [0..<n] b = fold f [m..<m + n] (b :: 'b)"
  by (induction n) simp_all

lemma nested_fold_upt:
  "fold (\<lambda>y b. fold (\<lambda>x b. f (y * w + x) b) [0..<w] b) [0..<h] b = fold f [0..<h * w] (b :: 'b)"
proof (induction h arbitrary: b)
  case (Suc h)
  have "[0..<Suc h * w] = [0..<h * w] @ [h * w..<h * w + w]"
    using upt_add_eq_append [of 0 "h * w" w] by (simp add: add.commute)
  then show ?case using Suc by (simp add: fold_offset [of f])
qed simp

text \<open>Copying every cell from the one \<open>d\<close> further, in ascending order, shifts the cells.\<close>

lemma fold_shift:
  assumes "n + d \<le> 65536" and "0 < d" and "j < 65536"
  shows "fold (\<lambda>i b. b(of_nat i := b (of_nat (i + d)))) [0..<n] b (of_nat j :: u16) =
    (if j < n then b (of_nat (j + d)) else b (of_nat j))"
  using assms
proof (induction n arbitrary: j)
  case (Suc n)
  have "fold (\<lambda>i b. b(of_nat i := b (of_nat (i + d)))) [0..<n] b (of_nat (n + d)) = b (of_nat (n + d))"
    using Suc.IH [of "n + d"] Suc.prems by (simp del: of_nat_add fun_upd_apply)
  then show ?case
    using Suc.IH [of j] Suc.prems of_nat_u16_eq_iff [of j n]
    by (cases "j = n") (auto simp del: of_nat_add fun_upd_apply simp: fun_upd_same fun_upd_other)
qed simp

lemma fold_blank:
  assumes "n \<le> 65536" and "j < 65536"
  shows "fold (\<lambda>i b. b(of_nat i := v)) [m..<n] b (of_nat j :: u16) = (if m \<le> j \<and> j < n then v else b (of_nat j))"
proof (cases "m \<le> j \<and> j < n")
  case True
  have "inj_on (of_nat :: nat \<Rightarrow> u16) (set [m..<n])"
    by (rule inj_onI) (use assms in \<open>simp add: of_nat_u16_eq_iff\<close>)
  from fold_fun_upd_in [OF this, of j "\<lambda>_. v" b] True show ?thesis by simp
next
  case False
  have "(of_nat i :: u16) \<noteq> of_nat j" if "i \<in> set [m..<n]" for i
    using that False assms by (auto simp: of_nat_u16_eq_iff)
  from fold_fun_upd_notin [of "[m..<n]" of_nat "of_nat j" "\<lambda>_. v" b, OF this] False show ?thesis by auto
qed

lemma scroll_buffer:
  assumes "j < 65536"
  shows "vga_buffer (vga_state (vga_scroll_up k)) (of_nat j) =
    (if j < 1920 then vga_buffer (vga_state k) (of_nat (j + 80))
     else if j < 2000 then vga_blank else vga_buffer (vga_state k) (of_nat j))"
proof -
  let ?b = "vga_buffer (vga_state k)" and ?f = "\<lambda>i b. b(of_nat i := b (of_nat (i + 80)))"
  let ?g = "\<lambda>i b. b(of_nat i := vga_blank)"
  have f: "b(of_nat (y * 80 + x) := b (of_nat ((y + 1) * 80 + x))) = ?f (y * 80 + x) b" for y x :: nat and b :: "u16 \<Rightarrow> u16"
    by (simp only: add_mult_distrib mult_1 ac_simps)
  have "vga_buffer (vga_state (vga_scroll_up k)) = fold ?g [24 * 80..<24 * 80 + 80] (fold ?f [0..<24 * 80] ?b)"
    unfolding vga_scroll_up_def VGA_WIDTH_def VGA_HEIGHT_def Let_def f nested_fold_upt [of ?f 80]
    using fold_offset [of ?g "24 * 80" 80 "fold ?f [0..<24 * 80] ?b"]
    by (simp add: f nested_fold_upt [of ?f 80] del: upt_rec_numeral of_nat_add of_nat_mult fun_upd_apply)
  then show ?thesis
    using assms fold_shift [of "24 * 80" 80 j ?b] fold_blank [of "24 * 80 + 80" j vga_blank "24 * 80" "fold ?f [0..<24 * 80] ?b"]
    by (simp del: upt_rec_numeral of_nat_add of_nat_mult fun_upd_apply)
qed

section \<open>The driver refines the terminal\<close>

lemma update_cursor_state [simp]: "vga_state (update_hardware_cursor k) = vga_state k"
  by (simp add: update_hardware_cursor_def outb_def Let_def)

lemma vga_ok_cursor [simp]: "vga_ok (update_hardware_cursor k) = vga_ok k"
  by (simp add: vga_ok_def)

lemma scroll_cells:
  "map (\<lambda>i. vga_buffer (vga_state (vga_scroll_up k)) (of_nat i)) [0..<2000] =
   drop 80 (map (\<lambda>i. vga_buffer (vga_state k) (of_nat i)) [0..<2000]) @ replicate 80 vga_blank"
  by (rule nth_equalityI) (auto simp: nth_append scroll_buffer add.commute simp del: of_nat_add)

lemma scroll_cursor [simp]:
  "cursor_x (vga_state (vga_scroll_up k)) = cursor_x (vga_state k)"
  "cursor_y (vga_state (vga_scroll_up k)) = cursor_y (vga_state k)"
  by (simp_all add: vga_scroll_up_def Let_def)

lemma unat_Suc_u8: "unat (x :: u8) < 255 \<Longrightarrow> unat (x + 1) = unat x + 1"
  by (simp add: unat_word_ariths)

text \<open>Ending a line from any column of a row of the screen.\<close>

lemma next_line_refines:
  assumes "unat (cursor_y (vga_state k)) < 25"
  shows "vga_ok (vga_next_line k)"
    and "screen_of (vga_state (vga_next_line k)) =
      term_advance (fst (screen_of (vga_state k))) ((unat (cursor_y (vga_state k)) + 1) * 80)"
proof -
  have y: "unat (cursor_y (vga_state k) + 1) = unat (cursor_y (vga_state k)) + 1"
    using assms by (intro unat_Suc_u8) simp
  show "vga_ok (vga_next_line k)"
    using assms by (simp add: vga_next_line_def vga_ok_def VGA_HEIGHT_def Let_def y)
  show "screen_of (vga_state (vga_next_line k)) =
      term_advance (fst (screen_of (vga_state k))) ((unat (cursor_y (vga_state k)) + 1) * 80)"
    using assms
    by (auto simp: vga_next_line_def screen_of_def term_advance_def VGA_HEIGHT_def Let_def y scroll_cells
        simp del: upt_Suc)
qed

lemma index_lookup:
  assumes "p < 2000"
  shows "map (\<lambda>i. (b(of_nat p := c)) (of_nat i :: u16)) [0..<2000] =
    (map (\<lambda>i. b (of_nat i)) [0..<2000])[p := c]"
  using assms by (intro nth_equalityI) (auto simp: nth_list_update of_nat_u16_eq_iff)

lemma putchar_refines:
  assumes "vga_ok k"
  shows "vga_ok (vga_putchar ch color k)"
    and "screen_of (vga_state (vga_putchar ch color k)) = term_put color ch (screen_of (vga_state k))"
proof -
  let ?s = "vga_state k"
  let ?k = "k\<lparr>vga_state := ?s\<lparr>vga_buffer := (vga_buffer ?s)(vga_index ?s := vga_cell ch color),
      cursor_x := cursor_x ?s + 1\<rparr>\<rparr>"
  let ?p = "unat (cursor_y ?s) * 80 + unat (cursor_x ?s)"
  have xy: "unat (cursor_x ?s) < 80" "unat (cursor_y ?s) < 25" using assms by (auto simp: vga_ok_def)
  have x: "unat (cursor_x ?s + 1) = unat (cursor_x ?s) + 1" using xy by (intro unat_Suc_u8) simp
  have p: "?p < 2000" "?p div 80 = unat (cursor_y ?s)" using xy by simp_all
  have cells: "fst (screen_of (vga_state ?k)) = (fst (screen_of ?s))[?p := vga_cell ch color]"
    using index_lookup [OF p(1)] by (simp add: screen_of_def vga_index_def VGA_WIDTH_def del: of_nat_add of_nat_mult)
  show "vga_ok (vga_putchar ch color k)"
    using next_line_refines(1) [of k] next_line_refines(1) [of ?k] xy
    by (auto simp: vga_putchar_def Let_def VGA_WIDTH_def) (auto simp: vga_ok_def x)
  have end_line: "(unat (cursor_y ?s) + 1) * 80 = ?p + 1" if "80 \<le> unat (cursor_x ?s) + 1"
    using that xy by simp
  have put: "term_put color ch (screen_of ?s) = term_advance ((fst (screen_of ?s))[?p := vga_cell ch color]) (?p + 1)"
    if "ch \<noteq> 10" using that by (simp add: term_put_def screen_of_def)
  show "screen_of (vga_state (vga_putchar ch color k)) = term_put color ch (screen_of ?s)"
  proof (cases "ch = 10")
    case True
    then show ?thesis
      using next_line_refines(2) [of k] xy p by (simp add: vga_putchar_def term_put_def screen_of_def)
  next
    case False
    show ?thesis
    proof (cases "80 \<le> unat (cursor_x ?s) + 1")
      case True
      then have "vga_putchar ch color k = update_hardware_cursor (vga_next_line ?k)"
        using False by (simp add: vga_putchar_def VGA_WIDTH_def x Let_def)
      then show ?thesis
        unfolding put [OF False] end_line [OF True, symmetric] cells [symmetric]
        using next_line_refines(2) [of ?k] xy by simp
    next
      case lt: False
      then have "?p + 1 < 2000" using xy by linarith
      moreover have "vga_putchar ch color k = update_hardware_cursor ?k"
        using False lt by (simp add: vga_putchar_def VGA_WIDTH_def x Let_def)
      ultimately show ?thesis
        unfolding put [OF False] cells [symmetric] by (simp add: term_advance_def) (simp add: screen_of_def x)
    qed
  qed
qed

section \<open>Strings\<close>

text \<open>What a string routine needs of the routine that writes a character: an invariant it keeps
  and a function on an abstraction it implements. Then a string is written as its characters,
  up to the first zero byte.\<close>

fun put_until_zero :: "(u8 \<Rightarrow> 's \<Rightarrow> 's) \<Rightarrow> u8 list \<Rightarrow> 's \<Rightarrow> 's" where
  "put_until_zero put [] s = s"
| "put_until_zero put (c # cs) s = (if c = 0 then s else put_until_zero put cs (put c s))"

locale char_sink =
  fixes put :: "u8 \<Rightarrow> 's \<Rightarrow> 's"
    and ok :: "'s \<Rightarrow> bool"
    and view :: "'s \<Rightarrow> 'v"
    and view_put :: "u8 \<Rightarrow> 'v \<Rightarrow> 'v"
  assumes put_keeps: "ok s \<Longrightarrow> ok (put c s)"
    and put_view: "ok s \<Longrightarrow> view (put c s) = view_put c (view s)"
begin

lemma putstr_keeps: "ok s \<Longrightarrow> ok (put_until_zero put cs s)"
  by (induction cs arbitrary: s) (auto simp: put_keeps)

lemma putstr_view:
  "ok s \<Longrightarrow> view (put_until_zero put cs s) = fold view_put (takeWhile (\<lambda>c. c \<noteq> 0) cs) (view s)"
  by (induction cs arbitrary: s) (auto simp: put_keeps put_view)

end

lemma vga_putbytes_sink: "vga_putbytes cs color k = put_until_zero (\<lambda>c. vga_putchar c color) cs k"
  by (induction cs arbitrary: k) auto

interpretation screen: char_sink "\<lambda>c. vga_putchar c color" vga_ok "\<lambda>k. screen_of (vga_state k)" "term_put color"
  for color
  by unfold_locales (auto simp: putchar_refines)

section \<open>What writing leaves alone\<close>

text \<open>Writing touches the screen, the cursor and the output ports.\<close>

lemma update_cursor_form: "\<exists>p. update_hardware_cursor k = k\<lparr>port_out := p\<rparr>"
  by (simp add: update_hardware_cursor_def outb_def Let_def) blast

lemma vga_next_line_form: "\<exists>v. vga_next_line k = k\<lparr>vga_state := v\<rparr>"
  by (simp add: vga_next_line_def vga_scroll_up_def Let_def) blast

lemma vga_putchar_form: "\<exists>v p. vga_putchar ch color k = k\<lparr>vga_state := v, port_out := p\<rparr>"
proof -
  obtain v where "(if ch = 10 then vga_next_line k
        else
          let s = vga_state k;
              k1 = k\<lparr>vga_state := s\<lparr>vga_buffer := (vga_buffer s)(vga_index s := vga_cell ch color),
                                   cursor_x := cursor_x s + 1\<rparr>\<rparr>
          in if unat (cursor_x (vga_state k1)) \<ge> VGA_WIDTH then vga_next_line k1 else k1) = k\<lparr>vga_state := v\<rparr>"
  proof (cases "ch = 10")
    case True
    then show ?thesis using vga_next_line_form [of k] that by auto
  next
    case False
    let ?s = "(vga_state k)\<lparr>vga_buffer := (vga_buffer (vga_state k))(vga_index (vga_state k) := vga_cell ch color),
                 cursor_x := cursor_x (vga_state k) + 1\<rparr>"
    obtain v where "vga_next_line (k\<lparr>vga_state := ?s\<rparr>) = k\<lparr>vga_state := v\<rparr>"
      using vga_next_line_form [of "k\<lparr>vga_state := ?s\<rparr>"] by auto
    then show ?thesis using False that by (cases "unat (cursor_x ?s) \<ge> VGA_WIDTH") (simp_all add: Let_def)
  qed
  then show ?thesis unfolding vga_putchar_def using update_cursor_form [of "k\<lparr>vga_state := v\<rparr>"] by auto
qed

lemma vga_putbytes_form: "\<exists>v p. vga_putbytes cs color k = k\<lparr>vga_state := v, port_out := p\<rparr>"
proof (induction cs arbitrary: k)
  case Nil
  show ?case by (rule exI [of _ "vga_state k"], rule exI [of _ "port_out k"]) simp
next
  case (Cons c cs)
  obtain v p where c: "vga_putchar c color k = k\<lparr>vga_state := v, port_out := p\<rparr>" using vga_putchar_form by blast
  show ?case
  proof (cases "c = 0")
    case True
    then show ?thesis by (intro exI [of _ "vga_state k"] exI [of _ "port_out k"]) simp
  next
    case False
    obtain v' p' where "vga_putbytes cs color (vga_putchar c color k) =
        (vga_putchar c color k)\<lparr>vga_state := v', port_out := p'\<rparr>"
      using Cons.IH by blast
    then show ?thesis using False c by (intro exI [of _ v'] exI [of _ p']) simp
  qed
qed

lemma vga_putstr_form: "\<exists>v p. vga_putstr str color k = k\<lparr>vga_state := v, port_out := p\<rparr>"
proof (cases str)
  case None
  then show ?thesis
    by (intro exI [of _ "vga_state k"] exI [of _ "port_out k"]) (simp add: vga_putstr_def)
qed (simp add: vga_putstr_def vga_putbytes_form)

lemma vga_clear_form: "\<exists>v p. vga_clear k = k\<lparr>vga_state := v, port_out := p\<rparr>"
  unfolding vga_clear_def Let_def using update_cursor_form by fastforce

lemma vga_putchar_frame [simp]:
  "mem (vga_putchar ch color k) = mem k"
  "port_in (vga_putchar ch color k) = port_in k"
  "in_count (vga_putchar ch color k) = in_count k"
  "int_flag (vga_putchar ch color k) = int_flag k"
  "cr0 (vga_putchar ch color k) = cr0 k"
  "cr3 (vga_putchar ch color k) = cr3 k"
  "invlpg_log (vga_putchar ch color k) = invlpg_log k"
  "gdtr (vga_putchar ch color k) = gdtr k"
  "idtr (vga_putchar ch color k) = idtr k"
  "seg_cs (vga_putchar ch color k) = seg_cs k"
  "seg_data (vga_putchar ch color k) = seg_data k"
  "gdt (vga_putchar ch color k) = gdt k"
  "gdt_ptr (vga_putchar ch color k) = gdt_ptr k"
  "idt (vga_putchar ch color k) = idt k"
  "idt_ptr (vga_putchar ch color k) = idt_ptr k"
  "interrupt_handlers (vga_putchar ch color k) = interrupt_handlers k"
  "pmm_state (vga_putchar ch color k) = pmm_state k"
  "heap_state (vga_putchar ch color k) = heap_state k"
  "kbd_state (vga_putchar ch color k) = kbd_state k"
  "process_table (vga_putchar ch color k) = process_table k"
  "current_pid (vga_putchar ch color k) = current_pid k"
  "current_process (vga_putchar ch color k) = current_process k"
  "next_pid (vga_putchar ch color k) = next_pid k"
  "scheduler_ticks (vga_putchar ch color k) = scheduler_ticks k"
  using vga_putchar_form [of ch color k] by auto

lemma vga_putstr_frame [simp]:
  "mem (vga_putstr str color k) = mem k"
  "port_in (vga_putstr str color k) = port_in k"
  "in_count (vga_putstr str color k) = in_count k"
  "int_flag (vga_putstr str color k) = int_flag k"
  "cr0 (vga_putstr str color k) = cr0 k"
  "cr3 (vga_putstr str color k) = cr3 k"
  "invlpg_log (vga_putstr str color k) = invlpg_log k"
  "gdtr (vga_putstr str color k) = gdtr k"
  "idtr (vga_putstr str color k) = idtr k"
  "seg_cs (vga_putstr str color k) = seg_cs k"
  "seg_data (vga_putstr str color k) = seg_data k"
  "gdt (vga_putstr str color k) = gdt k"
  "gdt_ptr (vga_putstr str color k) = gdt_ptr k"
  "idt (vga_putstr str color k) = idt k"
  "idt_ptr (vga_putstr str color k) = idt_ptr k"
  "interrupt_handlers (vga_putstr str color k) = interrupt_handlers k"
  "pmm_state (vga_putstr str color k) = pmm_state k"
  "heap_state (vga_putstr str color k) = heap_state k"
  "kbd_state (vga_putstr str color k) = kbd_state k"
  "process_table (vga_putstr str color k) = process_table k"
  "current_pid (vga_putstr str color k) = current_pid k"
  "current_process (vga_putstr str color k) = current_process k"
  "next_pid (vga_putstr str color k) = next_pid k"
  "scheduler_ticks (vga_putstr str color k) = scheduler_ticks k"
  using vga_putstr_form [of str color k] by auto

lemma vga_clear_frame [simp]:
  "mem (vga_clear k) = mem k"
  "port_in (vga_clear k) = port_in k"
  "in_count (vga_clear k) = in_count k"
  "int_flag (vga_clear k) = int_flag k"
  "cr0 (vga_clear k) = cr0 k"
  "cr3 (vga_clear k) = cr3 k"
  "invlpg_log (vga_clear k) = invlpg_log k"
  "gdtr (vga_clear k) = gdtr k"
  "idtr (vga_clear k) = idtr k"
  "seg_cs (vga_clear k) = seg_cs k"
  "seg_data (vga_clear k) = seg_data k"
  "gdt (vga_clear k) = gdt k"
  "gdt_ptr (vga_clear k) = gdt_ptr k"
  "idt (vga_clear k) = idt k"
  "idt_ptr (vga_clear k) = idt_ptr k"
  "interrupt_handlers (vga_clear k) = interrupt_handlers k"
  "pmm_state (vga_clear k) = pmm_state k"
  "heap_state (vga_clear k) = heap_state k"
  "kbd_state (vga_clear k) = kbd_state k"
  "process_table (vga_clear k) = process_table k"
  "current_pid (vga_clear k) = current_pid k"
  "current_process (vga_clear k) = current_process k"
  "next_pid (vga_clear k) = next_pid k"
  "scheduler_ticks (vga_clear k) = scheduler_ticks k"
  using vga_clear_form [of k] by auto

lemma vga_putstr_ok [simp, intro]: "vga_ok k \<Longrightarrow> vga_ok (vga_putstr str color k)"
  using screen.putstr_keeps [of k] by (cases str) (simp_all add: vga_putstr_def vga_putbytes_sink)

lemma vga_ok_cong: "vga_state k' = vga_state k \<Longrightarrow> vga_ok k' = vga_ok k"
  by (simp add: vga_ok_def)

lemma vga_putstr_screen:
  "vga_ok k \<Longrightarrow> screen_of (vga_state (vga_putstr (Some cs) color k)) =
     fold (term_put color) (takeWhile (\<lambda>c. c \<noteq> 0) cs) (screen_of (vga_state k))"
  using screen.putstr_view [of k] by (simp add: vga_putstr_def vga_putbytes_sink)

section \<open>The hardware cursor\<close>

text \<open>The ports too are a sink: every character adds the four writes of its cursor update.\<close>

definition cursor_writes :: "nat \<Rightarrow> (u16 \<times> u8) list" where
  "cursor_writes p =
     [(0x3D4, 0x0E), (0x3D5, of_nat (p div 256)), (0x3D4, 0x0F), (0x3D5, of_nat (p mod 256))]"

lemma update_cursor_ports:
  assumes "vga_ok k"
  shows "port_out (update_hardware_cursor k) = port_out k @ cursor_writes (snd (screen_of (vga_state k)))"
proof -
  let ?p = "unat (cursor_y (vga_state k)) * 80 + unat (cursor_x (vga_state k))"
  have p: "?p < 2000" using assms by (auto simp: vga_ok_def)
  have "(ucast (drop_bit 8 (of_nat ?p :: u16)) :: u8) = of_nat (?p div 256)"
    using p by (simp add: word_unat_eq_iff drop_bit_eq_div unat_div unat_of_nat unsigned_ucast_eq take_bit_eq_mod del: of_nat_add of_nat_mult)
  moreover have "(ucast ((of_nat ?p :: u16) AND 0xFF) :: u8) = of_nat (?p mod 256)"
  proof -
    have "(0xFF :: u16) = mask 8" by (simp add: mask_eq_exp_minus_1)
    then have "(of_nat ?p :: u16) AND 0xFF = take_bit 8 (of_nat ?p)" by (simp only: take_bit_eq_mask)
    then have "(of_nat ?p :: u16) AND 0xFF = of_nat ?p mod 256"
      by (simp add: take_bit_eq_mod del: of_nat_add of_nat_mult)
    then show ?thesis
      using p by (simp add: word_unat_eq_iff unat_mod unat_of_nat unsigned_ucast_eq take_bit_eq_mod del: of_nat_add of_nat_mult)
  qed
  ultimately show ?thesis
    by (simp add: update_hardware_cursor_def outb_def cursor_writes_def screen_of_def vga_index_def VGA_WIDTH_def Let_def
        del: of_nat_add of_nat_mult)
qed

lemma sign_bit_u8: "bit (ch :: u8) 7 \<longleftrightarrow> \<not> ch < 0x80"
proof -
  have "bit ch 7 \<longleftrightarrow> odd (unat ch div 128)"
    using bit_iff_odd [of "unat ch" 7] by (simp add: bit_unsigned_iff)
  moreover have "unat ch < 256" using unsigned_less [of ch, where ?'a = nat] by simp
  then have "unat ch div 128 = (if unat ch < 128 then 0 else 1)" by auto
  ultimately show ?thesis by (auto simp: word_less_nat_alt)
qed

section \<open>Initialisation\<close>

lemma vga_clear_screen:
  shows "screen_of (vga_state (vga_clear k)) = (replicate 2000 vga_blank, 0)" and "vga_ok (vga_clear k)"
proof -
  have "map (\<lambda>i. fold (\<lambda>i b. b(of_nat i := vga_blank)) [0..<2000] b (of_nat i :: u16)) [0..<2000]
      = replicate 2000 vga_blank" for b
    by (rule nth_equalityI) (simp_all add: fold_blank del: fun_upd_apply upt_rec_numeral)
  then show "screen_of (vga_state (vga_clear k)) = (replicate 2000 vga_blank, 0)"
    by (simp add: vga_clear_def screen_of_def VGA_WIDTH_def VGA_HEIGHT_def Let_def del: fun_upd_apply upt_rec_numeral)
  show "vga_ok (vga_clear k)" by (simp add: vga_clear_def vga_ok_def Let_def)
qed

section \<open>Properties\<close>

text \<open>C13: the driver is a terminal: writing a C string with the cursor on the screen writes its
  characters one by one up to the zero byte, wraps at the right edge, starts a new line for a
  newline, and scrolls by exactly one line when the last line is left; the cursor stays on the
  screen.\<close>

theorem vga_putstr_refines_terminal:
  assumes "vga_ok k"
  shows "screen_of (vga_state (vga_putstr (Some cs) color k)) =
      fold (term_put color) (takeWhile (\<lambda>c. c \<noteq> 0) cs) (screen_of (vga_state k))
    \<and> vga_ok (vga_putstr (Some cs) color k) \<and> vga_putstr None color k = k"
  using screen.putstr_view [OF assms] screen.putstr_keeps [OF assms]
  by (simp add: vga_putstr_def vga_putbytes_sink)

theorem vga_putstr_refines_terminal_witness:
  "screen_of (vga_state (vga_putstr (lit ''OK'') 7 (vga_clear (boot_kernel (\<lambda>_. 0) (\<lambda>_. 0) (\<lambda>_ _. 0)))))
     = ((replicate 2000 vga_blank)[0 := 0x074F, 1 := 0x074B], 2)"
  using vga_putstr_refines_terminal [OF vga_clear_screen(2), of "map of_char ''OK''" 7]
  by (simp add: lit_def vga_clear_screen term_put_def term_advance_def vga_cell_def)

text \<open>\<^verbatim>\<open>vga_init\<close> leaves a blank screen with the cursor in its first cell whatever was there
  before.\<close>

lemma vga_init_blank:
  "fst (vga_init k) = 1 \<and> vga_ok (snd (vga_init k))
     \<and> screen_of (vga_state (snd (vga_init k))) = (replicate 2000 vga_blank, 0)"
  by (simp add: vga_init_def vga_clear_screen)

text \<open>The hardware cursor follows: writing a character, moving the cursor and clearing the
  screen end with the four port writes that name the cell the driver's cursor is in; a move
  beyond the edges goes to the last column and row.\<close>

lemma vga_hardware_cursor_follows:
  assumes "vga_ok k"
  shows "port_out (vga_putchar ch color k) =
      port_out k @ cursor_writes (snd (screen_of (vga_state (vga_putchar ch color k))))
    \<and> port_out (vga_move_cursor x y k) =
      port_out k @ cursor_writes (min (unat y) 24 * 80 + min (unat x) 79)
    \<and> vga_ok (vga_move_cursor x y k)"
proof -
  have s: "port_out (vga_scroll_up k) = port_out k" for k by (simp add: vga_scroll_up_def Let_def)
  then have n: "port_out (vga_next_line k) = port_out k" for k by (simp add: vga_next_line_def Let_def)
  obtain k1 where k1: "vga_putchar ch color k = update_hardware_cursor k1" "port_out k1 = port_out k"
    by (simp add: vga_putchar_def n Let_def)
  have "vga_ok k1" using putchar_refines(1) [OF assms, of ch color] k1(1) by simp
  then have put: "port_out (vga_putchar ch color k) =
      port_out k @ cursor_writes (snd (screen_of (vga_state (vga_putchar ch color k))))"
    using update_cursor_ports k1 by simp
  obtain k2 where k2: "vga_move_cursor x y k = update_hardware_cursor k2" "port_out k2 = port_out k" "vga_ok k2"
      "snd (screen_of (vga_state k2)) = min (unat y) 24 * 80 + min (unat x) 79"
    by (auto simp: vga_move_cursor_def vga_ok_def screen_of_def VGA_WIDTH_def VGA_HEIGHT_def Let_def min_def)
  then show ?thesis using put update_cursor_ports [OF k2(3)] by simp
qed

lemma vga_hardware_cursor_follows_witness:
  "port_out (vga_move_cursor 200 3 (boot_kernel (\<lambda>_. 0) (\<lambda>_. 0) (\<lambda>_ _. 0)))
     = [(0x3D4, 0x0E), (0x3D5, 1), (0x3D4, 0x0F), (0x3D5, 63)]"
proof -
  have "vga_ok (boot_kernel (\<lambda>_. 0) (\<lambda>_. 0) (\<lambda>_ _. 0))" by (simp add: vga_ok_def boot_kernel_def)
  from vga_hardware_cursor_follows [OF this, of 10 7 200 3] show ?thesis
    by (simp add: cursor_writes_def) (simp add: boot_kernel_def)
qed

text \<open>A character from 0x80 on loses its colour: sign extension fills the attribute byte of the
  cell with ones, whatever the colour asked for; below 0x80 the cell is the colour over the
  character.\<close>

lemma vga_cell_attribute:
  "vga_cell ch color =
     (if ch < 0x80 then push_bit 8 (ucast color) OR ucast ch else 0xFF00 OR ucast ch)"
proof (rule bit_word_eqI)
  fix n
  assume n: "n < LENGTH(16)"
  have b: "bit ch 7 \<longleftrightarrow> \<not> ch < 0x80" by (rule sign_bit_u8)
  have m: "(0xFF00 :: u16) = NOT (mask 8)" by (simp add: mask_eq_exp_minus_1)
  have "bit (scast ch :: u16) n \<longleftrightarrow> (if n < 8 then bit ch n else bit ch 7)"
    using n by (cases "n = 7") (auto simp: bit_signed_iff min_def not_less)
  then show "bit (vga_cell ch color) n =
     bit (if ch < 0x80 then push_bit 8 (ucast color) OR ucast ch else 0xFF00 OR ucast ch :: u16) n"
    using n b by (auto simp: vga_cell_def m bit_simps dest: bit_imp_le_length)
qed

end
