(* ===== verification/Serial.thy ===== *)
theory Serial
  imports Vga
begin

text \<open>
  The serial port, \<^verbatim>\<open>src/kernel/drivers/serial.c\<close>. Polling loops read the line status register,
  whose values are the environment's: sending gives up after 100000 polls, receiving does not
  give up, so it is a partial function with \<open>None\<close> for a call that never returns.
\<close>

section \<open>The code\<close>

definition COM1_PORT :: u16 where "COM1_PORT = 0x3F8"
definition UART_DATA :: u16 where "UART_DATA = COM1_PORT + 0"
definition UART_IER :: u16 where "UART_IER = COM1_PORT + 1"
definition UART_FCR :: u16 where "UART_FCR = COM1_PORT + 2"
definition UART_LCR :: u16 where "UART_LCR = COM1_PORT + 3"
definition UART_MCR :: u16 where "UART_MCR = COM1_PORT + 4"
definition UART_LSR :: u16 where "UART_LSR = COM1_PORT + 5"

lemmas uart_defs = COM1_PORT_def UART_DATA_def UART_IER_def UART_FCR_def UART_LCR_def UART_MCR_def UART_LSR_def

definition LSR_DR :: u8 where "LSR_DR = 0x01"
definition LSR_THRE :: u8 where "LSR_THRE = 0x20"

definition serial_init :: "kernel \<Rightarrow> int \<times> kernel" where
  "serial_init k =
     (let k = outb UART_IER 0x00 k;
          k = outb UART_LCR 0x80 k;
          k = outb UART_DATA 0x01 k;
          k = outb UART_IER 0x01 k;
          k = outb UART_LCR 0x03 k;
          k = outb UART_FCR 0xC7 k;
          k = outb UART_MCR 0x0B k;
          k = outb UART_IER 0x01 k
      in (1, k))"

text \<open>The polling loop, with the value of \<^verbatim>\<open>timeout\<close> before the poll; the result is its value when
  the loop ends.\<close>

function serial_wait :: "nat \<Rightarrow> kernel \<Rightarrow> nat \<times> kernel" where
  "serial_wait timeout k =
     (let (lsr, k1) = inb UART_LSR k; timeout1 = timeout + 1
      in if lsr AND LSR_THRE = 0 \<and> timeout1 < 100000 then serial_wait timeout1 k1 else (timeout1, k1))"
  by pat_completeness auto
termination
  by (relation "measure (\<lambda>(t, k). 100000 - t)") auto

declare serial_wait.simps [simp del]

definition serial_send_byte :: "u8 \<Rightarrow> kernel \<Rightarrow> int \<times> kernel" where
  "serial_send_byte byte k =
     (let (timeout, k) = serial_wait 0 k
      in if timeout \<ge> 100000 then (-1, k) else (0, outb UART_DATA byte k))"

fun serial_send_bytes :: "u8 list \<Rightarrow> kernel \<Rightarrow> int \<times> kernel" where
  "serial_send_bytes [] k = (0, k)"
| "serial_send_bytes (c # cs) k =
     (if c = 0 then (0, k)
      else let (r, k) = serial_send_byte c k
           in if r \<noteq> 0 then (-1, k) else serial_send_bytes cs k)"

definition serial_send_str :: "c_string \<Rightarrow> kernel \<Rightarrow> int \<times> kernel" where
  "serial_send_str str k = (case str of None \<Rightarrow> (-1, k) | Some cs \<Rightarrow> serial_send_bytes cs k)"


definition serial_data_available :: "kernel \<Rightarrow> int \<times> kernel" where
  "serial_data_available k =
     (let (lsr, k1) = inb UART_LSR k in (if lsr AND LSR_DR \<noteq> 0 then 1 else 0, k1))"

section \<open>Polling\<close>

text \<open>The value the \<open>i\<close>-th poll from now on sees, and the state after \<open>n\<close> polls.\<close>

definition lsr_poll :: "kernel \<Rightarrow> nat \<Rightarrow> u8" where
  "lsr_poll k i = port_in k UART_LSR (in_count k UART_LSR + i)"

definition after_polls :: "nat \<Rightarrow> kernel \<Rightarrow> kernel" where
  "after_polls n k = k\<lparr>in_count := (in_count k)(UART_LSR := in_count k UART_LSR + n)\<rparr>"

lemma after_polls_simps [simp]:
  "port_out (after_polls n k) = port_out k" "port_in (after_polls n k) = port_in k"
  "lsr_poll (after_polls n k) i = lsr_poll k (n + i)" "after_polls 0 k = k"
  "after_polls m (after_polls n k) = after_polls (n + m) k"
  by (simp_all add: after_polls_def lsr_poll_def add.assoc)

lemma inb_lsr: "inb UART_LSR k = (lsr_poll k 0, after_polls 1 k)"
  by (simp add: inb_def lsr_poll_def after_polls_def)

text \<open>The loop ends with the first poll that finds the transmitter ready, or with the last one
  allowed.\<close>

lemma serial_wait_ready:
  assumes "t + n < 100000" and "lsr_poll k n AND LSR_THRE \<noteq> 0" and "\<forall>i<n. lsr_poll k i AND LSR_THRE = 0"
  shows "serial_wait t k = (t + n + 1, after_polls (n + 1) k)"
  using assms
proof (induction n arbitrary: t k)
  case 0
  then show ?case by (subst serial_wait.simps) (simp add: inb_lsr)
next
  case (Suc n)
  have "lsr_poll k 0 AND LSR_THRE = 0" using Suc.prems(3) by simp
  moreover have "serial_wait (t + 1) (after_polls 1 k) = (t + 1 + n + 1, after_polls (n + 1) (after_polls 1 k))"
    by (rule Suc.IH) (use Suc.prems in auto)
  ultimately show ?case using Suc.prems(1) by (subst serial_wait.simps) (simp add: inb_lsr)
qed

lemma serial_wait_timeout:
  assumes "t + n + 1 = 100000" and "\<forall>i<n. lsr_poll k i AND LSR_THRE = 0"
  shows "serial_wait t k = (100000, after_polls (n + 1) k)"
  using assms
proof (induction n arbitrary: t k)
  case 0
  then show ?case by (subst serial_wait.simps) (simp add: inb_lsr)
next
  case (Suc n)
  have "lsr_poll k 0 AND LSR_THRE = 0" using Suc.prems(2) by simp
  moreover have "serial_wait (t + 1) (after_polls 1 k) = (100000, after_polls (n + 1) (after_polls 1 k))"
    by (rule Suc.IH) (use Suc.prems in auto)
  ultimately show ?case using Suc.prems(1) by (subst serial_wait.simps) (simp add: inb_lsr)
qed



section \<open>Properties\<close>

text \<open>\<^verbatim>\<open>serial_send_byte\<close> always returns. It succeeds, with exactly one write of the byte to the data
  port, when one of the first 99999 polls finds the transmitter ready; otherwise it polls 100000
  times, returns -1 and sends nothing (even if that last poll found it ready).\<close>

lemma serial_send_byte_exact:
  "if \<exists>n<99999. lsr_poll k n AND LSR_THRE \<noteq> 0
   then \<exists>n<99999. serial_send_byte b k = (0, outb UART_DATA b (after_polls (n + 1) k))
   else serial_send_byte b k = (-1, after_polls 100000 k)"
proof (cases "\<exists>n<99999. lsr_poll k n AND LSR_THRE \<noteq> 0")
  case True
  then obtain m where m: "m < 99999" "lsr_poll k m AND LSR_THRE \<noteq> 0" by blast
  then obtain n where "n \<le> m" "lsr_poll k n AND LSR_THRE \<noteq> 0" "\<forall>i<n. lsr_poll k i AND LSR_THRE = 0"
    using ex_least_nat_le [of "\<lambda>n. lsr_poll k n AND LSR_THRE \<noteq> 0" m] by blast
  with m(1) have n: "n < 99999" "lsr_poll k n AND LSR_THRE \<noteq> 0" "\<forall>i<n. lsr_poll k i AND LSR_THRE = 0"
    by simp_all
  have "serial_send_byte b k = (0, outb UART_DATA b (after_polls (n + 1) k))"
    using serial_wait_ready [of 0 n k] n by (simp add: serial_send_byte_def)
  then show ?thesis using True n(1) by auto
next
  case False
  have "serial_wait 0 k = (100000, after_polls (99999 + 1) k)"
    by (rule serial_wait_timeout) (use False in auto)
  then show ?thesis using False by (simp add: serial_send_byte_def)
qed

text \<open>The polls before the \<open>i\<close>-th byte, if the \<open>j\<close>-th byte finds the transmitter ready at its poll \<open>ps ! j\<close>.\<close>

definition polls_before :: "nat list \<Rightarrow> nat \<Rightarrow> nat" where
  "polls_before ps i = sum_list (map Suc (take i ps))"

text \<open>What the status register says to a string of bytes: \<open>ps\<close> are the polls at which the first bytes find the
  transmitter ready, each the first such poll and one of the first 99999; if these are not all the bytes,
  the next one finds it busy 99999 times.\<close>

definition line_takes :: "kernel \<Rightarrow> u8 list \<Rightarrow> nat list \<Rightarrow> bool" where
  "line_takes k bs ps \<longleftrightarrow> length ps \<le> length bs
     \<and> (\<forall>i<length ps. ps ! i < 99999 \<and> lsr_poll k (polls_before ps i + ps ! i) AND LSR_THRE \<noteq> 0
          \<and> (\<forall>j<ps ! i. lsr_poll k (polls_before ps i + j) AND LSR_THRE = 0))
     \<and> (length ps < length bs \<longrightarrow> (\<forall>j<99999. lsr_poll k (polls_before ps (length ps) + j) AND LSR_THRE = 0))"

lemma lsr_poll_outb [simp]: "lsr_poll (outb p v k) i = lsr_poll k i"
  by (simp add: lsr_poll_def outb_def)

lemma line_takes_Cons:
  assumes "n < 99999" and "lsr_poll k n AND LSR_THRE \<noteq> 0" and "\<forall>i<n. lsr_poll k i AND LSR_THRE = 0"
    and "line_takes (outb p v (after_polls (n + 1) k)) bs ps"
  shows "line_takes k (b # bs) (n # ps)"
proof -
  have before: "polls_before (n # ps) (Suc i) = Suc n + polls_before ps i" for i by (simp add: polls_before_def)
  have zero: "polls_before (n # ps) 0 = 0" by (simp add: polls_before_def)
  show ?thesis
    unfolding line_takes_def length_Cons All_less_Suc2
    using assms by (simp add: before zero line_takes_def add.assoc)
qed

lemma serial_send_bytes_exact:
  "\<exists>ps. line_takes k (takeWhile (\<lambda>c. c \<noteq> 0) cs) ps
    \<and> fst (serial_send_bytes cs k) = (if length ps = length (takeWhile (\<lambda>c. c \<noteq> 0) cs) then 0 else -1)
    \<and> port_out (snd (serial_send_bytes cs k)) =
        port_out k @ map (Pair UART_DATA) (take (length ps) (takeWhile (\<lambda>c. c \<noteq> 0) cs))"
proof (induction cs arbitrary: k)
  case (Cons c cs)
  consider "c = 0" | "c \<noteq> 0" "\<forall>n<99999. lsr_poll k n AND LSR_THRE = 0"
    | n where "c \<noteq> 0" "n < 99999" "lsr_poll k n AND LSR_THRE \<noteq> 0" "\<forall>i<n. lsr_poll k i AND LSR_THRE = 0"
    using ex_least_nat_le [of "\<lambda>n. lsr_poll k n AND LSR_THRE \<noteq> 0"] by (metis le_less_trans)
  then show ?case
  proof cases
    case 1
    then show ?thesis by (intro exI [of _ "[]"]) (simp add: line_takes_def)
  next
    case 2
    then have "serial_send_byte c k = (-1, after_polls 100000 k)" using serial_send_byte_exact [of k c] by auto
    then show ?thesis using 2 by (intro exI [of _ "[]"]) (simp add: line_takes_def polls_before_def)
  next
    case 3
    let ?k = "outb UART_DATA c (after_polls (n + 1) k)"
    have s: "serial_send_byte c k = (0, ?k)" using serial_wait_ready [of 0 n k] 3 by (simp add: serial_send_byte_def)
    obtain ps where ps: "line_takes ?k (takeWhile (\<lambda>c. c \<noteq> 0) cs) ps"
        "fst (serial_send_bytes cs ?k) = (if length ps = length (takeWhile (\<lambda>c. c \<noteq> 0) cs) then 0 else -1)"
        "port_out (snd (serial_send_bytes cs ?k)) =
          port_out ?k @ map (Pair UART_DATA) (take (length ps) (takeWhile (\<lambda>c. c \<noteq> 0) cs))"
      using Cons.IH by blast
    from line_takes_Cons [OF 3(2-4) ps(1), of c] show ?thesis
      using 3(1) s ps(2,3) by (intro exI [of _ "n # ps"]) (simp add: outb_def)
  qed
qed (simp add: line_takes_def)

text \<open>C29: \<^verbatim>\<open>serial_send_str\<close> always returns, and the status register alone decides what it sends. Every
  byte before the zero byte is sent, in order and once, after the first poll that finds the transmitter
  ready, until a byte finds it busy at 99999 polls in a row; the bytes before that one are sent, the
  result is -1, and 0 if there is no such byte. The null pointer is refused.\<close>

theorem serial_send_str_prefix:
  "(\<exists>ps. line_takes k (takeWhile (\<lambda>c. c \<noteq> 0) cs) ps
     \<and> fst (serial_send_str (Some cs) k) = (if length ps = length (takeWhile (\<lambda>c. c \<noteq> 0) cs) then 0 else -1)
     \<and> port_out (snd (serial_send_str (Some cs) k)) =
         port_out k @ map (Pair UART_DATA) (take (length ps) (takeWhile (\<lambda>c. c \<noteq> 0) cs)))
   \<and> serial_send_str None k = (-1, k)"
  using serial_send_bytes_exact [of k cs] by (simp add: serial_send_str_def)



text \<open>The divisor latch of the 16550: while bit 7 of the line control register is set, the ports 0 and
  1 of the chip are the low and the high byte of the divisor of 115200 baud.\<close>

record uart =
  dlab :: bool
  divisor_low :: u8
  divisor_high :: u8

definition uart_write :: "u16 \<times> u8 \<Rightarrow> uart \<Rightarrow> uart" where
  "uart_write w u =
     (if fst w = UART_LCR then u\<lparr>dlab := bit (snd w) 7\<rparr>
      else if dlab u \<and> fst w = UART_DATA then u\<lparr>divisor_low := snd w\<rparr>
      else if dlab u \<and> fst w = UART_IER then u\<lparr>divisor_high := snd w\<rparr>
      else u)"

text \<open>\<^verbatim>\<open>serial_init\<close> does not set the divisor to 1: the same byte goes to both halves of the divisor
  latch, so the divisor is 257 and the rate 448 baud, not the documented 115200.\<close>

lemma serial_init_divisor:
  "let u = fold uart_write (drop (length (port_out k)) (port_out (snd (serial_init k)))) u0
   in divisor_low u = 1 \<and> divisor_high u = 1 \<and> \<not> dlab u
      \<and> unat (divisor_high u) * 256 + unat (divisor_low u) = 257"
  by (simp add: serial_init_def outb_def uart_write_def uart_defs Let_def)

end
