(* ===== verification/Idt.thy ===== *)
theory Idt
  imports Vga
begin

text \<open>
  The interrupt descriptors and the interrupt controller, \<^verbatim>\<open>src/kernel/arch/x86/idt.c\<close>. The stubs
  \<^verbatim>\<open>isr0\<close> to \<^verbatim>\<open>isr19\<close> and \<^verbatim>\<open>irq0\<close> to \<^verbatim>\<open>irq15\<close> the table points to are not part of the repository; their
  addresses are parameters in \<open>layout\<close>. The port writes of \<^verbatim>\<open>pic_init\<close>, \<^verbatim>\<open>irq_enable\<close> and
  \<^verbatim>\<open>irq_disable\<close> are judged against the command protocol of the 8259 controller.
\<close>

section \<open>The code\<close>

definition idt_set_entry :: "u8 \<Rightarrow> u32 \<Rightarrow> u16 \<Rightarrow> u8 \<Rightarrow> kernel \<Rightarrow> kernel" where
  "idt_set_entry vector handler sel flags k =
     k\<lparr>idt := (idt k)[unat vector :=
       \<lparr>offset_low = ucast (handler AND 0xFFFF), selector = sel, idt_reserved = 0,
        idt_flags = flags, offset_high = ucast (drop_bit 16 handler AND 0xFFFF)\<rparr>]\<rparr>"

definition pic_init :: "kernel \<Rightarrow> kernel" where
  "pic_init k =
     (let k = outb 0xA0 0x20 (outb 0x20 0x20 k);
          k = outb 0xA1 0x70 (outb 0x21 0x08 k);
          k = outb 0xA1 0x02 (outb 0x21 0x04 k);
          k = outb 0xA1 0x01 (outb 0x21 0x01 k)
      in outb 0xA1 0xFF (outb 0x21 0xFF k))"

definition INT_PAGE_FAULT :: nat where "INT_PAGE_FAULT = 14"

text \<open>The twenty and the sixteen calls of \<^verbatim>\<open>idt_set_entry\<close> in \<^verbatim>\<open>idt_init\<close>, in their order.\<close>

definition idt_fill :: "layout \<Rightarrow> kernel \<Rightarrow> kernel" where
  "idt_fill L k =
     (let k = fold (\<lambda>i. idt_set_entry (of_nat i) (isr_stub L i) 0x08 0x8E) [0..<20] k
      in fold (\<lambda>i. idt_set_entry (of_nat (32 + i)) (irq_stub L i) 0x08 0x8E) [0..<16] k)"

definition idt_init :: "layout \<Rightarrow> kernel \<Rightarrow> int \<times> kernel" where
  "idt_init L k =
     (let k = k\<lparr>idt_ptr := \<lparr>ptr_limit = 256 * 8 - 1, ptr_base = idt_addr L\<rparr>\<rparr>;
          k = k\<lparr>interrupt_handlers :=
                fold (\<lambda>i hs. hs[i := Isr_default_handler]) [0..<256] (interrupt_handlers k)\<rparr>;
          k = idt_fill L k;
          k = k\<lparr>interrupt_handlers := (interrupt_handlers k)[INT_PAGE_FAULT := Isr_page_fault_handler]\<rparr>;
          k = pic_init k
      in (1, k\<lparr>idtr := idt_ptr k\<rparr>))"

text \<open>The test \<^verbatim>\<open>vector >= 256\<close> compares a byte promoted to \<^verbatim>\<open>int\<close>.\<close>

definition idt_register_handler :: "u8 \<Rightarrow> interrupt_handler_t \<Rightarrow> kernel \<Rightarrow> int \<times> kernel" where
  "idt_register_handler vector handler k =
     (if unat vector \<ge> 256 then (-1, k)
      else (0, k\<lparr>interrupt_handlers := (interrupt_handlers k)[unat vector := handler]\<rparr>))"

definition isr_default_handler :: "kernel \<Rightarrow> outcome" where
  "isr_default_handler k =
     (let red = VGA_COLOR VGA_COLOR_RED VGA_COLOR_BLACK
      in Stopped (vga_putstr (lit [CHR 0x0A]) red (vga_putstr (lit ''EXCEPTION: INT '') red k)))"

definition isr_page_fault_handler :: "kernel \<Rightarrow> outcome" where
  "isr_page_fault_handler k =
     Stopped (vga_putstr (lit ''PAGE FAULT at EIP: '') (VGA_COLOR VGA_COLOR_RED VGA_COLOR_BLACK) k)"

definition interrupts_enable :: "kernel \<Rightarrow> kernel" where
  "interrupts_enable k = k\<lparr>int_flag := True\<rparr>"

definition interrupts_disable :: "kernel \<Rightarrow> kernel" where
  "interrupts_disable k = k\<lparr>int_flag := False\<rparr>"

text \<open>The port and the bit number for an interrupt line.\<close>

definition irq_port :: "u8 \<Rightarrow> u16 \<times> u8" where
  "irq_port irq = (if irq \<ge> 8 then (0xA1, irq - 8) else (0x21, irq))"

text \<open>\<^verbatim>\<open>1 << irq\<close> is an \<^verbatim>\<open>int\<close>: from 32 on the shift is undefined, which is \<open>None\<close>.\<close>

definition irq_enable :: "u8 \<Rightarrow> kernel \<Rightarrow> kernel option" where
  "irq_enable irq k =
     (let (port, b) = irq_port irq; (m, k1) = inb port k
      in if b \<ge> 32 then None
         else Some (outb port (m AND NOT (ucast (push_bit (unat b) (1 :: u32)))) k1))"

definition irq_disable :: "u8 \<Rightarrow> kernel \<Rightarrow> kernel option" where
  "irq_disable irq k =
     (let (port, b) = irq_port irq; (m, k1) = inb port k
      in if b \<ge> 32 then None
         else Some (outb port (m OR ucast (push_bit (unat b) (1 :: u32))) k1))"

section \<open>The tables\<close>

text \<open>The address a gate leads to, as the processor assembles it.\<close>

definition gate_offset :: "idt_entry_t \<Rightarrow> u32" where
  "gate_offset e = ucast (offset_low e) OR push_bit 16 (ucast (offset_high e))"

lemma gate_offset_set:
  "gate_offset \<lparr>offset_low = ucast (h AND 0xFFFF), selector = s, idt_reserved = 0, idt_flags = f,
     offset_high = ucast (drop_bit 16 h AND 0xFFFF)\<rparr> = h"
proof (rule bit_word_eqI)
  fix n
  assume "n < LENGTH(32)"
  have m: "(0xFFFF :: u32) = mask 16" by (simp add: mask_eq_exp_minus_1)
  show "bit (gate_offset \<lparr>offset_low = ucast (h AND 0xFFFF), selector = s, idt_reserved = 0, idt_flags = f,
     offset_high = ucast (drop_bit 16 h AND 0xFFFF)\<rparr>) n = bit h n"
    using \<open>n < LENGTH(32)\<close> unfolding gate_offset_def m by (cases "n < 16") (auto simp: bit_simps)
qed

text \<open>A present 32-bit interrupt gate of ring 0 that leads to \<open>h\<close> in segment 0x08.\<close>

definition kernel_gate :: "u32 \<Rightarrow> idt_entry_t \<Rightarrow> bool" where
  "kernel_gate h e \<longleftrightarrow> gate_offset e = h \<and> selector e = 0x08 \<and> idt_flags e = 0x8E \<and> idt_reserved e = 0"

lemma idt_set_entry_fields:
  "idt (idt_set_entry v h s f k) = (idt k)[unat v :=
     \<lparr>offset_low = ucast (h AND 0xFFFF), selector = s, idt_reserved = 0, idt_flags = f,
      offset_high = ucast (drop_bit 16 h AND 0xFFFF)\<rparr>]"
  "idt_ptr (idt_set_entry v h s f k) = idt_ptr k"
  "interrupt_handlers (idt_set_entry v h s f k) = interrupt_handlers k"
  by (simp_all add: idt_set_entry_def)

lemma fold_set_entry:
  fixes h :: "nat \<Rightarrow> u32"
  assumes "n + b \<le> 256" and "length (idt k) = 256" and "v < 256"
  defines "k' \<equiv> fold (\<lambda>i. idt_set_entry (of_nat (b + i)) (h i) 0x08 0x8E) [0..<n] k"
  shows "length (idt k') = 256
    \<and> (if b \<le> v \<and> v < b + n then kernel_gate (h (v - b)) (idt k' ! v) else idt k' ! v = idt k ! v)
    \<and> idt_ptr k' = idt_ptr k \<and> interrupt_handlers k' = interrupt_handlers k"
  using assms(1) unfolding k'_def
proof (induction n)
  case (Suc n)
  have u: "unat (of_nat (b + n) :: u8) = b + n" using Suc.prems by (simp add: unat_of_nat del: of_nat_add)
  then show ?case
    using Suc assms(3)
    by (auto simp: idt_set_entry_fields nth_list_update kernel_gate_def gate_offset_set less_Suc_eq
        simp del: of_nat_add)
qed (use assms(2) in auto)

lemma fold_set_all:
  "length xs = n \<Longrightarrow> fold (\<lambda>i hs. hs[i := h]) [0..<n] xs = replicate n h"
proof -
  have "fold (\<lambda>i hs. hs[i := h]) [0..<m] xs = replicate m h @ drop m xs" if "m \<le> length xs" for m
    using that
  proof (induction m)
    case (Suc m)
    then have "drop m xs = xs ! m # drop (Suc m) xs" by (simp add: Cons_nth_drop_Suc)
    then show ?case using Suc by (simp add: list_update_append replicate_append_same)
  qed simp
  then show "length xs = n \<Longrightarrow> fold (\<lambda>i hs. hs[i := h]) [0..<n] xs = replicate n h" by simp
qed

lemma idt_fill_gates:
  assumes "length (idt k) = 256" and "v < 256"
  shows "length (idt (idt_fill L k)) = 256"
    and "if v < 20 then kernel_gate (isr_stub L v) (idt (idt_fill L k) ! v)
      else if 32 \<le> v \<and> v < 48 then kernel_gate (irq_stub L (v - 32)) (idt (idt_fill L k) ! v)
      else idt (idt_fill L k) ! v = idt k ! v"
    and "idt_ptr (idt_fill L k) = idt_ptr k \<and> interrupt_handlers (idt_fill L k) = interrupt_handlers k"
proof -
  let ?k = "fold (\<lambda>i. idt_set_entry (of_nat (0 + i)) (isr_stub L i) 0x08 0x8E) [0..<20] k"
  have f: "idt_fill L k = fold (\<lambda>i. idt_set_entry (of_nat (32 + i)) (irq_stub L i) 0x08 0x8E) [0..<16] ?k"
    by (simp only: idt_fill_def Let_def add_0)
  have a: "20 + 0 \<le> (256 :: nat)" "16 + 32 \<le> (256 :: nat)" by simp_all
  note i = fold_set_entry [OF a(1) assms, where h = "isr_stub L"]
  note r = fold_set_entry [OF a(2) conjunct1 [OF i] assms(2), where h = "irq_stub L"]
  show "length (idt (idt_fill L k)) = 256" unfolding f using r by blast
  show "idt_ptr (idt_fill L k) = idt_ptr k \<and> interrupt_handlers (idt_fill L k) = interrupt_handlers k"
    unfolding f using r i by metis
  show "if v < 20 then kernel_gate (isr_stub L v) (idt (idt_fill L k) ! v)
      else if 32 \<le> v \<and> v < 48 then kernel_gate (irq_stub L (v - 32)) (idt (idt_fill L k) ! v)
      else idt (idt_fill L k) ! v = idt k ! v"
    unfolding f using r i by (auto simp del: of_nat_add upt_rec_numeral split: if_splits)
qed

section \<open>The interrupt controllers\<close>

text \<open>The part of the 8259 protocol that matters here. A command byte with bit 4 set starts the
  initialisation: the data bytes that follow are ICW2 (the vector base), ICW3 unless bit 1 says
  there is a single controller, and ICW4 if bit 0 asks for it. Any other command byte leaves
  base and mask alone, and a data byte outside an initialisation is the interrupt mask.\<close>

record pic =
  vector_base :: u8
  imr :: u8
  icw_due :: "nat list"

definition pic_command :: "u8 \<Rightarrow> pic \<Rightarrow> pic" where
  "pic_command v p =
     (if bit v 4 then p\<lparr>imr := 0,
        icw_due := [2] @ (if bit v 1 then [] else [3]) @ (if bit v 0 then [4] else [])\<rparr> else p)"

definition pic_data :: "u8 \<Rightarrow> pic \<Rightarrow> pic" where
  "pic_data v p =
     (case icw_due p of
        [] \<Rightarrow> p\<lparr>imr := v\<rparr>
      | i # is \<Rightarrow> (if i = 2 then p\<lparr>vector_base := v AND 0xF8, icw_due := is\<rparr> else p\<lparr>icw_due := is\<rparr>))"

definition pic_write :: "u16 \<times> u8 \<Rightarrow> pic \<times> pic \<Rightarrow> pic \<times> pic" where
  "pic_write w ps =
     (let (port, v) = w; (m, s) = ps
      in if port = 0x20 then (pic_command v m, s) else if port = 0x21 then (pic_data v m, s)
         else if port = 0xA0 then (m, pic_command v s) else if port = 0xA1 then (m, pic_data v s)
         else (m, s))"

text \<open>What the controllers make of the writes between two states of the kernel.\<close>

definition pics_after :: "kernel \<Rightarrow> kernel \<Rightarrow> pic \<times> pic \<Rightarrow> pic \<times> pic" where
  "pics_after k k' ps = fold pic_write (drop (length (port_out k)) (port_out k')) ps"

text \<open>The writes that reach a controller. The rest of the output goes to other devices.\<close>

definition pic_writes :: "kernel \<Rightarrow> (u16 \<times> u8) list" where
  "pic_writes k = filter (\<lambda>w. fst w \<in> {0x20, 0x21, 0xA0, 0xA1}) (port_out k)"

definition pics_idle :: "pic \<times> pic \<Rightarrow> bool" where
  "pics_idle ps \<longleftrightarrow> icw_due (fst ps) = [] \<and> icw_due (snd ps) = []"

definition masked_lines :: "pic \<times> pic \<Rightarrow> nat set" where
  "masked_lines ps =
     set (filter (\<lambda>i. bit (imr (if i < 8 then fst ps else snd ps)) (i mod 8)) [0..<16])"

lemma fold_pic_write: "fold pic_write ws ps = fold pic_write (filter (\<lambda>w. fst w \<in> {0x20, 0x21, 0xA0, 0xA1}) ws) ps"
proof (induction ws arbitrary: ps)
  case (Cons w ws)
  have "pic_write w ps = ps" if "fst w \<notin> {0x20, 0x21, 0xA0, 0xA1}"
    using that by (auto simp: pic_write_def case_prod_unfold Let_def)
  then show ?case using Cons by simp
qed simp

lemma pic_writes_outb:
  "pic_writes (outb p v k) = pic_writes k @ (if p \<in> {0x20, 0x21, 0xA0, 0xA1} then [(p, v)] else [])"
  by (simp add: pic_writes_def outb_def)

lemma pic_writes_state [simp]:
  "pic_writes (k\<lparr>mem := m\<rparr>) = pic_writes k" "pic_writes (k\<lparr>in_count := c\<rparr>) = pic_writes k"
  "pic_writes (k\<lparr>vga_state := v\<rparr>) = pic_writes k" "pic_writes (k\<lparr>interrupt_handlers := h\<rparr>) = pic_writes k"
  "pic_writes (k\<lparr>kbd_state := b\<rparr>) = pic_writes k" "pic_writes (k\<lparr>int_flag := f\<rparr>) = pic_writes k"
  by (simp_all add: pic_writes_def)

lemma pic_writes_cong: "port_out k' = port_out k \<Longrightarrow> pic_writes k' = pic_writes k"
  by (simp add: pic_writes_def)

lemma pic_writes_cursor [simp]: "pic_writes (update_hardware_cursor k) = pic_writes k"
  by (simp add: update_hardware_cursor_def Let_def pic_writes_outb)

lemma pic_writes_clear [simp]: "pic_writes (vga_clear k) = pic_writes k"
  by (simp add: vga_clear_def Let_def)

lemma pic_writes_putchar [simp]: "pic_writes (vga_putchar c color k) = pic_writes k"
proof -
  have "pic_writes (vga_next_line q) = pic_writes q" for q using vga_next_line_form [of q] by auto
  then show ?thesis by (simp add: vga_putchar_def Let_def)
qed

lemma pic_writes_putstr [simp]: "pic_writes (vga_putstr str color k) = pic_writes k"
proof -
  have "pic_writes (vga_putbytes cs color q) = pic_writes q" for cs q
    by (induction cs arbitrary: q) simp_all
  then show ?thesis by (simp add: vga_putstr_def split: option.split)
qed

lemma bit_FF: "bit (0xFF :: u8) n \<longleftrightarrow> n < 8"
proof -
  have "(0xFF :: u8) = mask 8" by (simp add: mask_eq_exp_minus_1)
  then have "bit (0xFF :: u8) n \<longleftrightarrow> bit (mask 8 :: u8) n" by (simp only:)
  also have "\<dots> \<longleftrightarrow> n < 8" unfolding bit_mask_iff by simp
  finally show ?thesis .
qed

lemma idt_init_gates:
  assumes "length (idt k) = 256" and "v < 256"
  shows "if v < 20 then kernel_gate (isr_stub L v) (idt (snd (idt_init L k)) ! v)
    else if 32 \<le> v \<and> v < 48 then kernel_gate (irq_stub L (v - 32)) (idt (snd (idt_init L k)) ! v)
    else idt (snd (idt_init L k)) ! v = idt k ! v"
proof -
  let ?k1 = "k\<lparr>idt_ptr := \<lparr>ptr_limit = 2047, ptr_base = idt_addr L\<rparr>,
    interrupt_handlers := fold (\<lambda>i hs. hs[i := Isr_default_handler]) [0..<256] (interrupt_handlers k)\<rparr>"
  have "idt (snd (idt_init L k)) = idt (idt_fill L ?k1)"
    by (simp add: idt_init_def pic_init_def outb_def Let_def del: upt_rec_numeral)
  moreover have "idt ?k1 = idt k" "length (idt ?k1) = 256" using assms(1) by simp_all
  ultimately show ?thesis using idt_fill_gates(2) [of ?k1 v L] assms(2) by simp
qed

lemma idt_init_fields:
  assumes "length (idt k) = 256" and "length (interrupt_handlers k) = 256"
  shows "fst (idt_init L k) = 1" and "idtr (snd (idt_init L k)) = \<lparr>ptr_limit = 2047, ptr_base = idt_addr L\<rparr>"
    and "interrupt_handlers (snd (idt_init L k)) = (replicate 256 Isr_default_handler)[14 := Isr_page_fault_handler]"
proof -
  let ?k1 = "k\<lparr>idt_ptr := \<lparr>ptr_limit = 2047, ptr_base = idt_addr L\<rparr>,
    interrupt_handlers := fold (\<lambda>i hs. hs[i := Isr_default_handler]) [0..<256] (interrupt_handlers k)\<rparr>"
  have "length (idt ?k1) = 256" using assms(1) by simp
  from idt_fill_gates(3) [OF this, of 0 L] have "idt_ptr (idt_fill L ?k1) = \<lparr>ptr_limit = 2047, ptr_base = idt_addr L\<rparr>"
    "interrupt_handlers (idt_fill L ?k1) = replicate 256 Isr_default_handler"
    using fold_set_all [OF assms(2)] by (simp_all del: upt_rec_numeral)
  then show "fst (idt_init L k) = 1" "idtr (snd (idt_init L k)) = \<lparr>ptr_limit = 2047, ptr_base = idt_addr L\<rparr>"
    "interrupt_handlers (snd (idt_init L k)) = (replicate 256 Isr_default_handler)[14 := Isr_page_fault_handler]"
    by (simp_all add: idt_init_def pic_init_def outb_def INT_PAGE_FAULT_def Let_def del: upt_rec_numeral)
qed

section \<open>Properties\<close>

text \<open>C26: \<^verbatim>\<open>idt_init\<close> installs a present ring-0 interrupt gate to the right stub for every exception
  from 0 to 19 and every line from 32 to 47, leaves the other 220 gates alone, makes
  \<^verbatim>\<open>isr_default_handler\<close> the handler of every vector except 14, which gets the page-fault handler,
  and loads the table.\<close>

theorem idt_init_table:
  assumes "length (idt k) = 256" and "length (interrupt_handlers k) = 256"
  shows "let (r, k') = idt_init L k
    in r = 1 \<and> idtr k' = \<lparr>ptr_limit = 2047, ptr_base = idt_addr L\<rparr>
       \<and> interrupt_handlers k' = (replicate 256 Isr_default_handler)[14 := Isr_page_fault_handler]
       \<and> (\<forall>v<256. if v < 20 then kernel_gate (isr_stub L v) (idt k' ! v)
            else if 32 \<le> v \<and> v < 48 then kernel_gate (irq_stub L (v - 32)) (idt k' ! v)
            else idt k' ! v = idt k ! v)"
  using idt_init_fields [OF assms] idt_init_gates [OF assms(1)] by (simp add: case_prod_unfold)

theorem idt_init_table_witness:
  "kernel_gate 0x1234 (idt (snd (idt_init \<lparr>kernel_page_directory = 0, kernel_page_tables = 0, gdt_addr = 0,
       idt_addr = 0, isr_stub = (\<lambda>_. 0), irq_stub = (\<lambda>_. 0x1234)\<rparr> (boot_kernel (\<lambda>_. 0) (\<lambda>_. 0) (\<lambda>_ _. 0)))) ! 33)"
proof -
  let ?k = "boot_kernel (\<lambda>_. 0) (\<lambda>_. 0) (\<lambda>_ _. 0)"
  have "length (idt ?k) = 256" "length (interrupt_handlers ?k) = 256" by (simp_all add: boot_kernel_def)
  from idt_init_table [OF this, of "\<lparr>kernel_page_directory = 0, kernel_page_tables = 0, gdt_addr = 0,
       idt_addr = 0, isr_stub = (\<lambda>_. 0), irq_stub = (\<lambda>_. 0x1234)\<rparr>"]
  show ?thesis by (auto simp: case_prod_unfold Let_def dest!: spec [of _ 33])
qed

text \<open>C27: \<^verbatim>\<open>pic_init\<close> never initialises the controllers. Its first bytes have bit 4 clear, so they are
  no ICW1, and every later byte is taken as an interrupt mask: the vector bases stay what they
  were, not 32 and 40, and in the end every line is masked.\<close>

theorem pic_init_does_not_remap:
  assumes "pics_idle (m, s)"
  shows "pics_after k (pic_init k) (m, s) = (m\<lparr>imr := 0xFF\<rparr>, s\<lparr>imr := 0xFF\<rparr>)
    \<and> masked_lines (pics_after k (pic_init k) (m, s)) = {..<16}"
proof -
  have p: "pics_after k (pic_init k) (m, s) = (m\<lparr>imr := 0xFF\<rparr>, s\<lparr>imr := 0xFF\<rparr>)"
    using assms by (simp add: pics_after_def pic_init_def outb_def pic_write_def pic_command_def pic_data_def
        pics_idle_def Let_def)
  have "bit (0xFF :: u8) (n mod 8)" "n < 8 \<Longrightarrow> bit (0xFF :: u8) n" for n unfolding bit_FF by simp_all
  then show ?thesis unfolding p by (auto simp: masked_lines_def)
qed

theorem pic_init_does_not_remap_witness:
  "vector_base (fst (pics_after (boot_kernel (\<lambda>_. 0) (\<lambda>_. 0) (\<lambda>_ _. 0)) (pic_init (boot_kernel (\<lambda>_. 0) (\<lambda>_. 0) (\<lambda>_ _. 0)))
     (\<lparr>vector_base = 8, imr = 0, icw_due = []\<rparr>, \<lparr>vector_base = 0x70, imr = 0, icw_due = []\<rparr>))) = 8"
  using pic_init_does_not_remap [of "\<lparr>vector_base = 8, imr = 0, icw_due = []\<rparr>"
      "\<lparr>vector_base = 0x70, imr = 0, icw_due = []\<rparr>" "boot_kernel (\<lambda>_. 0) (\<lambda>_. 0) (\<lambda>_ _. 0)"]
  by (simp add: pics_idle_def)

lemma irq_bit:
  assumes "b < 8"
  shows "bit (m AND NOT (ucast (push_bit b (1 :: u32))) :: u8) n \<longleftrightarrow> bit m n \<and> n \<noteq> b"
    and "bit (m OR ucast (push_bit b (1 :: u32)) :: u8) n \<longleftrightarrow> bit m n \<or> n = b"
  using assms by (auto simp: bit_simps dest: bit_imp_le_length)

text \<open>For a line below 16, \<^verbatim>\<open>irq_enable\<close> unmasks exactly that line and \<^verbatim>\<open>irq_disable\<close> masks exactly
  that line, when reading the data port of an idle controller returns its mask.\<close>

lemma irq_enable_disable_mask:
  assumes "irq < 16" and "pics_idle ps"
    and "port_in k (fst (irq_port irq)) (in_count k (fst (irq_port irq))) = imr (if irq < 8 then fst ps else snd ps)"
  shows "(\<exists>k'. irq_enable irq k = Some k' \<and> pics_idle (pics_after k k' ps)
        \<and> masked_lines (pics_after k k' ps) = masked_lines ps - {unat irq})
    \<and> (\<exists>k'. irq_disable irq k = Some k' \<and> pics_idle (pics_after k k' ps)
        \<and> masked_lines (pics_after k k' ps) = insert (unat irq) (masked_lines ps))"
proof -
  obtain m s where ps: "ps = (m, s)" by (cases ps)
  have idle: "icw_due m = []" "icw_due s = []" using assms(2) by (simp_all add: ps pics_idle_def)
  have i: "unat irq < 16" using assms(1) by (simp add: word_less_nat_alt)
  show ?thesis
  proof (cases "irq < 8")
    case True
    then have l: "unat irq < 8" "\<not> 8 \<le> irq" "\<not> 32 \<le> irq" by (simp_all add: word_less_nat_alt word_le_nat_alt)
    show ?thesis
      using assms(3) idle True l
      by (auto simp: irq_enable_def irq_disable_def irq_port_def inb_def outb_def pics_after_def pic_write_def
          pic_data_def pics_idle_def ps masked_lines_def irq_bit
          simp del: push_bit_of_1)
  next
    case False
    then have b: "unat (irq - 8) = unat irq - 8" "8 \<le> irq" by (simp_all add: unat_sub)
    then have l: "unat irq - 8 < 8" "\<not> 32 \<le> irq - 8" "8 \<le> unat irq"
      using i False by (simp_all add: word_less_nat_alt word_le_nat_alt)
    have "n mod 8 = unat irq - 8 \<longleftrightarrow> n = unat irq" if "8 \<le> n" "n < 16" for n
      using that i l(3) by presburger
    then show ?thesis
      using assms(3) idle False b l i
      by (auto simp: irq_enable_def irq_disable_def irq_port_def inb_def outb_def pics_after_def pic_write_def
          pic_data_def pics_idle_def ps masked_lines_def irq_bit
          simp del: push_bit_of_1)
  qed
qed

lemma irq_enable_disable_mask_witness:
  "\<exists>k'. irq_enable 1 (boot_kernel (\<lambda>_. 0) (\<lambda>_. 0) (\<lambda>_ _. 0xFF)) = Some k'
     \<and> 1 \<notin> masked_lines (pics_after (boot_kernel (\<lambda>_. 0) (\<lambda>_. 0) (\<lambda>_ _. 0xFF)) k'
         (\<lparr>vector_base = 8, imr = 0xFF, icw_due = []\<rparr>, \<lparr>vector_base = 0x70, imr = 0xFF, icw_due = []\<rparr>))"
  using irq_enable_disable_mask [of 1
      "(\<lparr>vector_base = 8, imr = 0xFF, icw_due = []\<rparr>, \<lparr>vector_base = 0x70, imr = 0xFF, icw_due = []\<rparr>)"
      "boot_kernel (\<lambda>_. 0) (\<lambda>_. 0) (\<lambda>_ _. 0xFF)"]
  by (auto simp: pics_idle_def boot_kernel_def)

end
