(* ===== verification/Process.thy ===== *)
theory Process
  imports Pmm Heap Idt
begin

text \<open>
  Processes, \<^verbatim>\<open>src/kernel/proc/process.c\<close>: the table of 256 control blocks and the functions on it.
  Creating a process draws on the physical memory manager and on the kernel heap; a heap walk
  that does not end makes it \<open>None\<close>. Pointers to control blocks are indices into the table.
\<close>

section \<open>The code\<close>

text \<open>\<^verbatim>\<open>sizeof(interrupt_context_t)\<close>, 19 words, and the offsets of the members that are written.\<close>

definition CONTEXT_SIZE :: u32 where "CONTEXT_SIZE = 76"
definition ctx_gs :: u32 where "ctx_gs = 0"
definition ctx_fs :: u32 where "ctx_fs = 4"
definition ctx_es :: u32 where "ctx_es = 8"
definition ctx_ds :: u32 where "ctx_ds = 12"
definition ctx_esp :: u32 where "ctx_esp = 28"
definition ctx_eip :: u32 where "ctx_eip = 56"
definition ctx_cs :: u32 where "ctx_cs = 60"
definition ctx_eflags :: u32 where "ctx_eflags = 64"
definition ctx_ss :: u32 where "ctx_ss = 72"

lemmas ctx_defs = CONTEXT_SIZE_def ctx_gs_def ctx_fs_def ctx_es_def ctx_ds_def ctx_esp_def
  ctx_eip_def ctx_cs_def ctx_eflags_def ctx_ss_def

text \<open>Assigning to the control block with a given index.\<close>

definition upd_pcb :: "nat \<Rightarrow> (pcb_t \<Rightarrow> pcb_t) \<Rightarrow> kernel \<Rightarrow> kernel" where
  "upd_pcb i f k = k\<lparr>process_table := (process_table k)[i := f (process_table k ! i)]\<rparr>"

definition proc_init :: "kernel \<Rightarrow> int \<times> kernel" where
  "proc_init k =
     (let k = fold (\<lambda>i. upd_pcb i (\<lambda>p. p\<lparr>pid := 0, proc_state := PROC_STATE_READY, pcb_context := 0\<rparr>))
                [0..<MAX_PROCESSES] k;
          k = upd_pcb 0 (\<lambda>p. p\<lparr>pid := 0, proc_state := PROC_STATE_RUNNING\<rparr>) k
      in (1, k\<lparr>current_process := Some 0, current_pid := 0\<rparr>))"

text \<open>The writes to the new context, in the order of the code.\<close>

definition init_context :: "u32 \<Rightarrow> u32 \<Rightarrow> u32 \<Rightarrow> memory \<Rightarrow> memory" where
  "init_context c entry_point stack m =
     (let m = store32 m (c + ctx_eip) entry_point;
          m = store32 m (c + ctx_cs) 0x08;
          m = store32 m (c + ctx_ds) 0x10;
          m = store32 m (c + ctx_es) 0x10;
          m = store32 m (c + ctx_fs) 0x10;
          m = store32 m (c + ctx_gs) 0x10;
          m = store32 m (c + ctx_ss) 0x10;
          m = store32 m (c + ctx_esp) (stack + PAGE_SIZE - 4)
      in store32 m (c + ctx_eflags) 0x202)"

text \<open>The part of \<^verbatim>\<open>proc_create\<close> behind the check of the two frames.\<close>

definition proc_create_context :: "u32 \<Rightarrow> u32 \<Rightarrow> kernel \<Rightarrow> (int \<times> kernel) option" where
  "proc_create_context entry_point pd_phys k =
     (let i = unat (next_pid k);
          k = upd_pcb i (\<lambda>p. p\<lparr>kernel_stack := KERNEL_VIRT_BASE + 0x300000 + next_pid k * PAGE_SIZE,
                               page_dir_phys := pd_phys\<rparr>) k
      in case kmalloc CONTEXT_SIZE k of
           None \<Rightarrow> None
         | Some (c, k) \<Rightarrow>
             let k = upd_pcb i (\<lambda>p. p\<lparr>pcb_context := c\<rparr>) k
             in if c = 0 then Some (-1, k)
                else
                  let k = k\<lparr>mem := init_context c entry_point (kernel_stack (process_table k ! i)) (mem k)\<rparr>;
                      k = k\<lparr>next_pid := next_pid k + 1\<rparr>
                  in Some (uint (pid (process_table k ! i)), k))"

definition proc_create :: "u32 \<Rightarrow> u32 \<Rightarrow> kernel \<Rightarrow> (int \<times> kernel) option" where
  "proc_create entry_point prio k =
     (if unat (next_pid k) \<ge> MAX_PROCESSES then Some (-1, k)
      else
        let k = upd_pcb (unat (next_pid k)) (\<lambda>p. p\<lparr>pid := next_pid k, parent_pid := current_pid k,
                  proc_state := PROC_STATE_READY, priority := prio,
                  time_slice_remaining := SCHEDULER_TIME_SLICE, total_runtime := 0\<rparr>) k;
            (stack_phys, k) = pmm_alloc k;
            (pd_phys, k) = pmm_alloc k
        in if stack_phys = 0 \<or> pd_phys = 0 then Some (-1, k)
           else proc_create_context entry_point pd_phys k)"

definition proc_exit :: "u32 \<Rightarrow> kernel \<Rightarrow> int \<times> kernel" where
  "proc_exit p k =
     (if unat p \<ge> MAX_PROCESSES then (-1, k)
      else (0, upd_pcb (unat p) (\<lambda>b. b\<lparr>proc_state := PROC_STATE_ZOMBIE\<rparr>) k))"

definition proc_get_current :: "kernel \<Rightarrow> nat option" where
  "proc_get_current k = current_process k"

definition proc_get :: "u32 \<Rightarrow> nat option" where
  "proc_get p = (if unat p \<ge> MAX_PROCESSES then None else Some (unat p))"

definition proc_block :: "u32 \<Rightarrow> kernel \<Rightarrow> int \<times> kernel" where
  "proc_block resource k =
     (case current_process k of
        None \<Rightarrow> (-1, k)
      | Some i \<Rightarrow> (0, upd_pcb i (\<lambda>p. p\<lparr>proc_state := PROC_STATE_BLOCKED, blocked_on := resource\<rparr>) k))"

definition proc_unblock :: "u32 \<Rightarrow> kernel \<Rightarrow> int \<times> kernel" where
  "proc_unblock p k =
     (if unat p \<ge> MAX_PROCESSES then (-1, k)
      else if proc_state (process_table k ! unat p) \<noteq> PROC_STATE_BLOCKED then (-1, k)
      else (0, upd_pcb (unat p) (\<lambda>b. b\<lparr>proc_state := PROC_STATE_READY, blocked_on := 0\<rparr>) k))"

definition proc_halt_all :: "kernel \<Rightarrow> outcome" where
  "proc_halt_all k =
     Stopped (fold (\<lambda>i. upd_pcb i (\<lambda>p. p\<lparr>proc_state := PROC_STATE_ZOMBIE\<rparr>)) [0..<MAX_PROCESSES]
       (interrupts_disable k))"

text \<open>The loop of \<^verbatim>\<open>scheduler_get_stats\<close> over the three counters, and the stores through the pointers
  that are not null.\<close>

definition count_state :: "pcb_t \<Rightarrow> u32 \<times> u32 \<times> u32 \<Rightarrow> u32 \<times> u32 \<times> u32" where
  "count_state p cs =
     (let (ready, running, blocked) = cs
      in case proc_state p of
           PROC_STATE_READY \<Rightarrow> (ready + 1, running, blocked)
         | PROC_STATE_RUNNING \<Rightarrow> (ready, running + 1, blocked)
         | PROC_STATE_BLOCKED \<Rightarrow> (ready, running, blocked + 1)
         | PROC_STATE_ZOMBIE \<Rightarrow> (ready, running, blocked))"

definition store_unless_null :: "u32 \<Rightarrow> u32 \<Rightarrow> kernel \<Rightarrow> kernel" where
  "store_unless_null a v k = (if a = 0 then k else k\<lparr>mem := store32 (mem k) a v\<rparr>)"

definition scheduler_get_stats :: "u32 \<Rightarrow> u32 \<Rightarrow> u32 \<Rightarrow> kernel \<Rightarrow> int \<times> kernel" where
  "scheduler_get_stats ready_count running_count blocked_count k =
     (let (ready, running, blocked) =
            fold (\<lambda>i. count_state (process_table k ! i)) [0..<MAX_PROCESSES] (0, 0, 0)
      in (0, store_unless_null blocked_count blocked
               (store_unless_null running_count running (store_unless_null ready_count ready k))))"

section \<open>The table\<close>

lemma upd_pcb_simps [simp]:
  "process_table (upd_pcb i f k) = (process_table k)[i := f (process_table k ! i)]"
  "mem (upd_pcb i f k) = mem k" "pmm_state (upd_pcb i f k) = pmm_state k"
  "heap_state (upd_pcb i f k) = heap_state k" "next_pid (upd_pcb i f k) = next_pid k"
  "current_process (upd_pcb i f k) = current_process k" "current_pid (upd_pcb i f k) = current_pid k"
  "kbd_state (upd_pcb i f k) = kbd_state k" "vga_state (upd_pcb i f k) = vga_state k" "cr3 (upd_pcb i f k) = cr3 k"
  by (simp_all add: upd_pcb_def)

lemma fold_upd_pcb:
  assumes "n \<le> length (process_table k)"
  shows "process_table (fold (\<lambda>i. upd_pcb i f) [0..<n] k) = map f (take n (process_table k)) @ drop n (process_table k)"
  using assms
proof (induction n)
  case (Suc n)
  then have d: "drop n (process_table k) = process_table k ! n # drop (Suc n) (process_table k)"
    by (simp add: Cons_nth_drop_Suc)
  then show ?case using Suc by (simp add: nth_append list_update_append take_Suc_conv_app_nth)
qed simp

lemma proc_init_table:
  assumes "length (process_table k) = 256"
  shows "length (process_table (snd (proc_init k))) = 256"
    and "i < 256 \<Longrightarrow> pid (process_table (snd (proc_init k)) ! i) = 0
      \<and> proc_state (process_table (snd (proc_init k)) ! i) = (if i = 0 then PROC_STATE_RUNNING else PROC_STATE_READY)
      \<and> time_slice_remaining (process_table (snd (proc_init k)) ! i) = time_slice_remaining (process_table k ! i)"
    and "current_process (snd (proc_init k)) = Some 0" and "current_pid (snd (proc_init k)) = 0"
proof -
  let ?f = "\<lambda>p. p\<lparr>pid := 0, proc_state := PROC_STATE_READY, pcb_context := 0\<rparr>"
  have "process_table (snd (proc_init k)) =
      (map ?f (process_table k))[0 := (?f (process_table k ! 0))\<lparr>pid := 0, proc_state := PROC_STATE_RUNNING\<rparr>]"
    using fold_upd_pcb [of 256 k ?f] assms
    by (simp add: proc_init_def MAX_PROCESSES_def Let_def del: upt_rec_numeral)
  then show "length (process_table (snd (proc_init k))) = 256"
    "i < 256 \<Longrightarrow> pid (process_table (snd (proc_init k)) ! i) = 0
      \<and> proc_state (process_table (snd (proc_init k)) ! i) = (if i = 0 then PROC_STATE_RUNNING else PROC_STATE_READY)
      \<and> time_slice_remaining (process_table (snd (proc_init k)) ! i) = time_slice_remaining (process_table k ! i)"
    using assms by (auto simp: nth_list_update)
  show "current_process (snd (proc_init k)) = Some 0" "current_pid (snd (proc_init k)) = 0"
    by (simp_all add: proc_init_def Let_def)
qed

section \<open>Creating a process\<close>

text \<open>The members of a new context do not overlap.\<close>

lemma context_cells_apart:
  "unat d + 4 \<le> unat e \<Longrightarrow> unat e + 4 \<le> 4294967296 \<Longrightarrow> cells_apart (c + d) (c + e)"
  "unat d + 4 \<le> unat e \<Longrightarrow> unat e + 4 \<le> 4294967296 \<Longrightarrow> cells_apart (c + e) (c + (d :: u32))"
  by (auto simp: cells_apart_def word_le_nat_alt unat_sub_if_size size_word_def)

lemmas context_cells = context_cells_apart context_cells_apart [of 0, simplified]

lemma init_context_fields:
  "load32 (init_context c e s m) (c + ctx_eip) = e"
  "load32 (init_context c e s m) (c + ctx_cs) = 0x08"
  "load32 (init_context c e s m) (c + ctx_ds) = 0x10"
  "load32 (init_context c e s m) (c + ctx_ss) = 0x10"
  "load32 (init_context c e s m) (c + ctx_esp) = s + PAGE_SIZE - 4"
  "load32 (init_context c e s m) (c + ctx_eflags) = 0x202"
  "load32 (init_context c e s m) (c + ctx_es) = 0x10"
  "load32 (init_context c e s m) (c + ctx_fs) = 0x10"
  "load32 (init_context c e s m) (c + ctx_gs) = 0x10"
  by (simp_all add: init_context_def Let_def load32_store32_apart context_cells ctx_defs)

text \<open>The two allocations of \<^verbatim>\<open>proc_create\<close> when frame 0 is taken and two frames are free.\<close>

lemma two_frames:
  assumes "pmm_inv k" and "0 \<in> allocated_frames k" and "card (allocated_frames k) + 2 \<le> frame_count k"
  defines "k1 \<equiv> snd (pmm_alloc k)"
  defines "k2 \<equiv> snd (pmm_alloc k1)"
  shows "fst (pmm_alloc k) \<noteq> 0" and "fst (pmm_alloc k1) \<noteq> 0"
    and "\<exists>m p. k2 = k\<lparr>mem := m, pmm_state := p\<rparr>" and "\<not> in_bitmap a k \<Longrightarrow> mem k2 a = mem k a"
proof -
  have f: "card (allocated_frames k) < frame_count k" using assms(3) by simp
  note a = pmm_alloc_succeeds [OF assms(1,2) f]
  show "fst (pmm_alloc k) \<noteq> 0" by (rule a(1))
  show "fst (pmm_alloc k1) \<noteq> 0"
    using pmm_alloc_succeeds(1) [OF a(4,3)] a(2,5) assms(3) by (simp add: k1_def)
  show "\<exists>m p. k2 = k\<lparr>mem := m, pmm_state := p\<rparr>"
  proof -
    obtain m p where 1: "k1 = k\<lparr>mem := m, pmm_state := p\<rparr>" using pmm_alloc_frame [of k] by (auto simp: k1_def)
    obtain m' p' where "k2 = k1\<lparr>mem := m', pmm_state := p'\<rparr>" using pmm_alloc_frame [of k1] by (auto simp: k2_def)
    then have "k2 = k\<lparr>mem := m', pmm_state := p'\<rparr>" by (simp add: 1)
    then show ?thesis by blast
  qed
  show "mem k2 a = mem k a" if "\<not> in_bitmap a k"
    using that pmm_alloc_writes [OF assms(1)] pmm_alloc_writes [OF a(4)] by (simp add: k1_def k2_def)
qed

lemma pmm_upd_pcb:
  assumes "pmm_inv k"
  shows "pmm_inv (upd_pcb i f k)" and "allocated_frames (upd_pcb i f k) = allocated_frames k"
    and "frame_count (upd_pcb i f k) = frame_count k"
  by (rule pmm_cong [OF assms]; simp)+

lemma in_bitmap_upd_pcb [simp]: "in_bitmap a (upd_pcb i f k) = in_bitmap a k"
  by (simp add: in_bitmap_def)

text \<open>The context occupies 76 bytes.\<close>

lemma init_context_other:
  assumes "\<not> x - c < 76"
  shows "init_context c e s m x = m x"
proof -
  have o: "\<not> x - (c + d) < 4" if "d \<le> 72" for d
  proof
    assume "x - (c + d) < 4"
    then have u: "unat (x - (c + d)) < 4" by (simp add: word_less_nat_alt)
    have "unat ((x - (c + d)) + d) = unat (x - (c + d)) + unat d"
      by (subst unat_word_ariths) (use u that in \<open>simp add: word_le_nat_alt\<close>)
    moreover have "(x - (c + d)) + d = x - c" by simp
    ultimately have "unat (x - c) = unat (x - (c + d)) + unat d" by metis
    then show False using u that assms by (simp add: word_less_nat_alt word_le_nat_alt)
  qed
  show ?thesis
    unfolding init_context_def Let_def
    by (simp add: store32_other o o [of 0, simplified] ctx_defs)
qed

text \<open>The ways through \<^verbatim>\<open>proc_create\<close>, with the states it passes.\<close>

abbreviation new_pcb :: "u32 \<Rightarrow> kernel \<Rightarrow> pcb_t \<Rightarrow> pcb_t" where
  "new_pcb prio k \<equiv> \<lambda>p. p\<lparr>pid := next_pid k, parent_pid := current_pid k, proc_state := PROC_STATE_READY,
     priority := prio, time_slice_remaining := SCHEDULER_TIME_SLICE, total_runtime := 0\<rparr>"

lemma proc_create_steps:
  assumes "proc_create entry prio k = Some (r, k')"
  obtains (refused) "k' = k" "r = -1"
  | (no_frames) "unat (next_pid k) < 256" "r = -1" "k' = snd (pmm_alloc (snd (pmm_alloc (upd_pcb (unat (next_pid k)) (new_pcb prio k) k))))"
  | (created) k3 stack pd c k5 k6 where "unat (next_pid k) < 256"
      "k3 = snd (pmm_alloc (snd (pmm_alloc (upd_pcb (unat (next_pid k)) (new_pcb prio k) k))))"
      "kmalloc CONTEXT_SIZE (upd_pcb (unat (next_pid k3)) (\<lambda>p. p\<lparr>kernel_stack := stack, page_dir_phys := pd\<rparr>) k3) = Some (c, k5)"
      "k6 = upd_pcb (unat (next_pid k3)) (\<lambda>p. p\<lparr>pcb_context := c\<rparr>) k5"
      "k' = (if c = 0 then k6 else k6\<lparr>mem := init_context c entry (kernel_stack (process_table k6 ! unat (next_pid k3))) (mem k6),
         next_pid := next_pid k6 + 1\<rparr>)"
      "r = (if c = 0 then -1 else uint (pid (process_table k6 ! unat (next_pid k3))))"
proof (cases "unat (next_pid k) < 256")
  case False
  then show thesis using refused assms by (auto simp: proc_create_def MAX_PROCESSES_def)
next
  case True
  define k1 where "k1 = upd_pcb (unat (next_pid k)) (new_pcb prio k) k"
  define k3 where "k3 = snd (pmm_alloc (snd (pmm_alloc k1)))"
  let ?pd = "fst (pmm_alloc (snd (pmm_alloc k1)))"
  let ?stack = "KERNEL_VIRT_BASE + 0x300000 + next_pid k3 * PAGE_SIZE"
  let ?k4 = "upd_pcb (unat (next_pid k3)) (\<lambda>p. p\<lparr>kernel_stack := ?stack, page_dir_phys := ?pd\<rparr>) k3"
  have "k' = k3 \<and> r = -1 \<or> proc_create_context entry ?pd k3 = Some (r, k')"
    using assms True unfolding proc_create_def Let_def k1_def [symmetric]
    by (auto simp: MAX_PROCESSES_def case_prod_unfold k3_def split: if_splits)
  then show thesis
  proof
    assume "k' = k3 \<and> r = -1"
    then show thesis using no_frames [OF True] by (simp add: k3_def k1_def)
  next
    assume a: "proc_create_context entry ?pd k3 = Some (r, k')"
    then obtain c k5 where m: "kmalloc CONTEXT_SIZE ?k4 = Some (c, k5)"
      unfolding proc_create_context_def Let_def by (auto split: option.splits)
    show thesis
      by (rule created [OF True k3_def [unfolded k1_def] m refl])
        (use a in \<open>simp_all add: proc_create_context_def Let_def m split: if_splits\<close>)
  qed
qed

section \<open>Properties\<close>

text \<open>The last part of \<^verbatim>\<open>proc_create\<close> on a heap with room.\<close>

lemma proc_create_context_ok:
  assumes "length (process_table k) = 256" and "unat (next_pid k) < 256"
    and "heap_ok k" and "unat (heap_used (heap_state k)) + 88 \<le> unat (heap_size (heap_state k))"
  defines "i \<equiv> unat (next_pid k)"
  defines "stack \<equiv> 0xC0300000 + next_pid k * 4096"
  shows "\<exists>c m h. c \<noteq> 0 \<and> proc_create_context entry pd k = Some (uint (pid (process_table k ! i)),
      k\<lparr>mem := init_context c entry stack m, heap_state := h, next_pid := next_pid k + 1,
        process_table := (process_table k)[i := (process_table k ! i)
          \<lparr>kernel_stack := stack, page_dir_phys := pd, pcb_context := c\<rparr>]\<rparr>)"
proof -
  define k1 where "k1 = upd_pcb i (\<lambda>p. p\<lparr>kernel_stack := stack, page_dir_phys := pd\<rparr>) k"
  have h: "heap_state k1 = heap_state k" by (simp add: k1_def)
  have "heap_ok k1" by (rule heap_cong(1) [OF assms(3)]) (simp_all add: k1_def)
  from kmalloc_room [OF this, of CONTEXT_SIZE] obtain c k2 where c: "kmalloc CONTEXT_SIZE k1 = Some (c, k2)" "c \<noteq> 0"
    using assms(4) by (auto simp: h CONTEXT_SIZE_def)
  have "k2 = k1\<lparr>mem := mem k2, heap_state := heap_state k2\<rparr>" by (rule kmalloc_frame [OF c(1)])
  then obtain m h where k2: "k2 = k1\<lparr>mem := m, heap_state := h\<rparr>" by blast
  have s: "KERNEL_VIRT_BASE + 0x300000 + next_pid k * PAGE_SIZE = stack"
    by (simp add: stack_def KERNEL_VIRT_BASE_def PAGE_SIZE_def)
  have "proc_create_context entry pd k = Some (uint (pid (process_table k ! i)),
      k\<lparr>mem := init_context c entry stack m, heap_state := h, next_pid := next_pid k + 1,
        process_table := (process_table k)[i := (process_table k ! i)
          \<lparr>kernel_stack := stack, page_dir_phys := pd, pcb_context := c\<rparr>]\<rparr>)"
    unfolding proc_create_context_def s Let_def i_def [symmetric] k1_def [symmetric]
    using c assms(1,2) by (simp add: k2 k1_def upd_pcb_def i_def)
  then show ?thesis using c(2) by blast
qed

text \<open>The state a successful \<^verbatim>\<open>proc_create\<close> leaves.\<close>

lemma proc_create_result:
  assumes "length (process_table k) = 256" and "unat (next_pid k) < 256"
    and "pmm_inv k" and "0 \<in> allocated_frames k" and "card (allocated_frames k) + 2 \<le> frame_count k"
    and "heap_ok k" and "unat (heap_used (heap_state k)) + 88 \<le> unat (heap_size (heap_state k))"
    and "\<forall>i<unat (heap_used (heap_state k)). \<not> in_bitmap (heap_start (heap_state k) + of_nat i) k"
  defines "i \<equiv> unat (next_pid k)" and "stack \<equiv> 0xC0300000 + next_pid k * 4096"
  obtains c pd m h p where "c \<noteq> 0" and "pd \<noteq> 0"
    and "proc_create entry prio k = Some (uint (next_pid k), k\<lparr>mem := init_context c entry stack m, pmm_state := p,
      heap_state := h, next_pid := next_pid k + 1, process_table := (process_table k)[i :=
        (new_pcb prio k (process_table k ! i))\<lparr>kernel_stack := stack, page_dir_phys := pd, pcb_context := c\<rparr>]\<rparr>)"
proof -
  define k1 where "k1 = upd_pcb i (new_pcb prio k) k"
  define k2 where "k2 = snd (pmm_alloc k1)"
  define k3 where "k3 = snd (pmm_alloc k2)"
  have p1: "pmm_inv k1" "0 \<in> allocated_frames k1" "card (allocated_frames k1) + 2 \<le> frame_count k1"
    using pmm_upd_pcb [OF assms(3)] assms(4,5) by (simp_all add: k1_def)
  note f = two_frames [OF p1, folded k2_def k3_def]
  obtain m p where k3: "k3 = k1\<lparr>mem := m, pmm_state := p\<rparr>" using f(3) by blast
  have h3: "heap_state k3 = heap_state k" "next_pid k3 = next_pid k" "length (process_table k3) = 256"
    using assms(1) by (simp_all add: k3 k1_def)
  have "mem k3 (heap_start (heap_state k) + of_nat i) = mem k (heap_start (heap_state k) + of_nat i)"
    if "i < unat (heap_used (heap_state k))" for i
    using f(4) [of "heap_start (heap_state k) + of_nat i"] assms(8) that by (simp add: k1_def)
  then have ok3: "heap_ok k3" using heap_cong(1) [OF assms(6) h3(1)] by blast
  from proc_create_context_ok [OF h3(3) _ ok3, of entry "fst (pmm_alloc k2)"] obtain c m' h where c: "c \<noteq> 0"
    and create: "proc_create_context entry (fst (pmm_alloc k2)) k3 = Some (uint (pid (process_table k3 ! i)),
      k3\<lparr>mem := init_context c entry stack m', heap_state := h, next_pid := next_pid k + 1,
        process_table := (process_table k3)[i := (process_table k3 ! i)
          \<lparr>kernel_stack := stack, page_dir_phys := fst (pmm_alloc k2), pcb_context := c\<rparr>]\<rparr>)"
    using assms(2,7) by (auto simp: h3 i_def stack_def)
  have "proc_create entry prio k = proc_create_context entry (fst (pmm_alloc k2)) k3"
    using assms(2) f(1,2) unfolding proc_create_def Let_def i_def [symmetric] k1_def [symmetric]
    by (simp add: MAX_PROCESSES_def case_prod_unfold i_def k2_def [symmetric] k3_def [symmetric])
  then show thesis
    using that [OF c f(2), where m = m' and p = p and h = h] create assms(1,2) by (simp add: k3 k1_def i_def upd_pcb_def)
qed

text \<open>C31: with frame 0 and two frames to spare, a free table slot, and room for 88 bytes behind the
  blocks of a heap that the page bitmap does not cut into, \<^verbatim>\<open>proc_create\<close> returns the next process
  number and leaves a READY process: its context in the heap starts it at the entry point in the
  kernel segments with interrupts on and the stack pointer at the top of its stack page. The other
  processes are untouched.\<close>

theorem proc_create_ready:
  assumes "length (process_table k) = 256" and "unat (next_pid k) < 256"
    and "pmm_inv k" and "0 \<in> allocated_frames k" and "card (allocated_frames k) + 2 \<le> frame_count k"
    and "heap_ok k" and "unat (heap_used (heap_state k)) + 88 \<le> unat (heap_size (heap_state k))"
    and "\<forall>i<unat (heap_used (heap_state k)). \<not> in_bitmap (heap_start (heap_state k) + of_nat i) k"
  shows "\<exists>k'. proc_create entry prio k = Some (uint (next_pid k), k') \<and> next_pid k' = next_pid k + 1
    \<and> (let p = process_table k' ! unat (next_pid k); c = pcb_context p; m = mem k'
       in pid p = next_pid k \<and> parent_pid p = current_pid k \<and> proc_state p = PROC_STATE_READY
          \<and> priority p = prio \<and> time_slice_remaining p = 10 \<and> page_dir_phys p \<noteq> 0
          \<and> kernel_stack p = 0xC0300000 + next_pid k * 4096
          \<and> c \<noteq> 0 \<and> load32 m (c + ctx_eip) = entry \<and> load32 m (c + ctx_cs) = 0x08
          \<and> load32 m (c + ctx_ss) = 0x10 \<and> load32 m (c + ctx_eflags) = 0x202
          \<and> load32 m (c + ctx_esp) = kernel_stack p + 4092)
    \<and> (\<forall>j<256. j \<noteq> unat (next_pid k) \<longrightarrow> process_table k' ! j = process_table k ! j)"
proof (rule proc_create_result [OF assms, of entry prio])
  fix c pd m h p
  let ?i = "unat (next_pid k)" and ?stack = "0xC0300000 + next_pid k * 4096"
  let ?k = "k\<lparr>mem := init_context c entry ?stack m, pmm_state := p,
      heap_state := h, next_pid := next_pid k + 1, process_table := (process_table k)[?i :=
        (new_pcb prio k (process_table k ! ?i))\<lparr>kernel_stack := ?stack, page_dir_phys := pd, pcb_context := c\<rparr>]\<rparr>"
  assume "c \<noteq> 0" "pd \<noteq> 0" "proc_create entry prio k = Some (uint (next_pid k), ?k)"
  then show ?thesis
    using assms(1,2) init_context_fields
    by (intro exI [of _ ?k]) (simp add: SCHEDULER_TIME_SLICE_def PAGE_SIZE_def Let_def)
qed

text \<open>The state of \<^verbatim>\<open>kmain\<close> after the initialisation of the memory managers and of the processes, with
  one allocation done.\<close>

definition kmain_proc :: kernel where
  "kmain_proc = snd (proc_init (snd (heap_init 0xC0100000 0x800000
     (snd (pmm_alloc (snd (pmm_init 0x8000000 (boot_kernel (\<lambda>_. 0) (\<lambda>_. 0) (\<lambda>_ _. 0)))))))))"

lemma fold_upd_pcb_rest: "\<exists>t. fold (\<lambda>i. upd_pcb i f) is k = k\<lparr>process_table := t\<rparr>"
proof (induction "is" arbitrary: k)
  case Nil
  have "fold (\<lambda>i. upd_pcb i f) [] k = k\<lparr>process_table := process_table k\<rparr>" by simp
  then show ?case by blast
next
  case (Cons i "is")
  obtain t where "fold (\<lambda>i. upd_pcb i f) is (upd_pcb i f k) = (upd_pcb i f k)\<lparr>process_table := t\<rparr>"
    using Cons.IH by blast
  then have "fold (\<lambda>i. upd_pcb i f) (i # is) k = k\<lparr>process_table := t\<rparr>" by (simp add: upd_pcb_def)
  then show ?case by blast
qed

lemma proc_init_rest:
  "\<exists>t. snd (proc_init k) = k\<lparr>process_table := t, current_process := Some 0, current_pid := 0\<rparr>"
proof -
  let ?f = "\<lambda>p. p\<lparr>pid := 0, proc_state := PROC_STATE_READY, pcb_context := 0\<rparr>"
  obtain t where "fold (\<lambda>i. upd_pcb i ?f) [0..<MAX_PROCESSES] k = k\<lparr>process_table := t\<rparr>"
    using fold_upd_pcb_rest by blast
  then have "snd (proc_init k) = k\<lparr>process_table := t[0 := (t ! 0)\<lparr>pid := 0, proc_state := PROC_STATE_RUNNING\<rparr>],
      current_process := Some 0, current_pid := 0\<rparr>"
    by (simp add: proc_init_def Let_def upd_pcb_def)
  then show ?thesis by blast
qed

lemma kmain_proc_ok:
  shows "length (process_table kmain_proc) = 256" and "next_pid kmain_proc = 1" and "pmm_inv kmain_proc"
    and "allocated_frames kmain_proc = {0}" and "frame_count kmain_proc = 32768" and "heap_ok kmain_proc"
    and "heap_used (heap_state kmain_proc) = 0" and "heap_size (heap_state kmain_proc) = 0x800000"
proof -
  let ?b = "boot_kernel (\<lambda>_. 0) (\<lambda>_. 0) (\<lambda>_ _. 0)"
  let ?p = "snd (pmm_alloc (snd (pmm_init 0x8000000 ?b)))"
  let ?h = "snd (heap_init 0xC0100000 0x800000 ?p)"
  obtain t where t: "kmain_proc = ?h\<lparr>process_table := t, current_process := Some 0, current_pid := 0\<rparr>"
    using proc_init_rest [of ?h] by (auto simp: kmain_proc_def)
  obtain m p where p: "?p = (snd (pmm_init 0x8000000 ?b))\<lparr>mem := m, pmm_state := p\<rparr>" using pmm_alloc_frame by blast
  have "length (process_table ?h) = 256"
    by (simp add: heap_init_def p) (simp add: pmm_init_def boot_kernel_def Let_def)
  then show "length (process_table kmain_proc) = 256"
    unfolding kmain_proc_def by (rule proc_init_table(1))
  show "next_pid kmain_proc = 1"
    by (simp add: t heap_init_def p) (simp add: pmm_init_def boot_kernel_def Let_def)
  have i: "pmm_inv ?p" "allocated_frames ?p = {0}" "frame_count ?p = 32768"
    using pmm_alloc_abs [OF pmm_init_inv, of 0 "0x8000000" ?b] by (simp_all add: pmm_init_count pmm_init_frames)
  have s: "pmm_state kmain_proc = pmm_state ?p" "mem kmain_proc = mem ?p" by (simp_all add: t heap_init_def)
  show "pmm_inv kmain_proc" "allocated_frames kmain_proc = {0}" "frame_count kmain_proc = 32768"
    using pmm_cong [OF i(1) s(1)] s(2) i(2,3) by simp_all
  show h: "heap_used (heap_state kmain_proc) = 0" "heap_size (heap_state kmain_proc) = 0x800000"
    by (simp_all add: t heap_init_def)
  have "heap_ok ?h" using heap_init_ok by simp
  then show "heap_ok kmain_proc" by (rule heap_cong) (simp_all add: t heap_init_def)
qed

theorem proc_create_ready_witness:
  "\<exists>k'. proc_create 0x100500 1 kmain_proc = Some (1, k') \<and> next_pid k' = 2
     \<and> kernel_stack (process_table k' ! 1) = 0xC0301000"
  using proc_create_ready [of kmain_proc "0x100500" 1] by (auto simp: kmain_proc_ok Let_def)

text \<open>C32: the first \<^verbatim>\<open>proc_create\<close> of a kernel that has not allocated a frame fails, although memory is
  free: its first frame is frame 0. The call is not undone: both frames stay allocated, no process
  number is used up, and the slot is left READY under its number, without a context.\<close>

theorem first_proc_create_fails:
  assumes "length (process_table k) = 256" and "unat (next_pid k) < 256"
    and "pmm_inv k" and "allocated_frames k = {}" and "2 \<le> frame_count k"
  shows "\<exists>k'. proc_create entry prio k = Some (-1, k') \<and> allocated_frames k' = {0, 1}
    \<and> next_pid k' = next_pid k
    \<and> proc_state (process_table k' ! unat (next_pid k)) = PROC_STATE_READY
    \<and> pid (process_table k' ! unat (next_pid k)) = next_pid k
    \<and> pcb_context (process_table k' ! unat (next_pid k)) = pcb_context (process_table k ! unat (next_pid k))"
proof -
  let ?i = "unat (next_pid k)"
  define k1 where "k1 = upd_pcb ?i (\<lambda>p. p\<lparr>pid := next_pid k, parent_pid := current_pid k,
      proc_state := PROC_STATE_READY, priority := prio,
      time_slice_remaining := SCHEDULER_TIME_SLICE, total_runtime := 0\<rparr>) k"
  define k2 where "k2 = snd (pmm_alloc k1)"
  define k3 where "k3 = snd (pmm_alloc k2)"
  have p1: "pmm_inv k1" "allocated_frames k1 = {}" "2 \<le> frame_count k1"
    using pmm_upd_pcb [OF assms(3)] assms(4,5) by (simp_all add: k1_def)
  note a1 = pmm_alloc_abs [OF p1(1), of 0, folded k2_def]
  have p2: "pmm_inv k2" "allocated_frames k2 = {0}" "2 \<le> frame_count k2" "fst (pmm_alloc k1) = 0"
    using a1 p1 by simp_all
  have "allocated_frames k3 = {0, 1}" using pmm_alloc_abs(2) [OF p2(1), of 1] p2(2,3) by (auto simp: k3_def)
  moreover have "proc_create entry prio k = Some (-1, k3)"
    using assms(2) p2(4) unfolding proc_create_def Let_def k1_def [symmetric]
    by (simp add: MAX_PROCESSES_def case_prod_unfold k2_def [symmetric] k3_def [symmetric])
  moreover have "process_table k3 = process_table k1" "next_pid k3 = next_pid k"
    using pmm_alloc_frame [of k1] pmm_alloc_frame [of k2] by (auto simp: k2_def k3_def k1_def)
  ultimately show ?thesis using assms(1,2) by (auto simp: k1_def)
qed

theorem first_proc_create_fails_witness:
  "\<exists>k'. proc_create 0x100500 1 (snd (pmm_init 0x8000000 (boot_kernel (\<lambda>_. 0) (\<lambda>_. 0) (\<lambda>_ _. 0)))) = Some (-1, k')
     \<and> allocated_frames k' = {0, 1}"
proof -
  let ?k = "snd (pmm_init 0x8000000 (boot_kernel (\<lambda>_. 0) (\<lambda>_. 0) (\<lambda>_ _. 0)))"
  have "length (process_table ?k) = 256" "unat (next_pid ?k) < 256"
    by (simp_all add: pmm_init_def boot_kernel_def Let_def)
  then show ?thesis
    using first_proc_create_fails [of ?k "0x100500" 1] by (auto simp: pmm_init_inv pmm_init_frames pmm_init_count)
qed

lemma count_states:
  "fold count_state ps (r, n, b) =
     (r + of_nat (length (filter (\<lambda>p. proc_state p = PROC_STATE_READY) ps)),
      n + of_nat (length (filter (\<lambda>p. proc_state p = PROC_STATE_RUNNING) ps)),
      b + of_nat (length (filter (\<lambda>p. proc_state p = PROC_STATE_BLOCKED) ps)))"
proof (induction ps arbitrary: r n b)
  case (Cons p ps)
  then show ?case by (cases "proc_state p") (simp_all add: count_state_def)
qed simp

lemma fold_count_table:
  assumes "length (process_table k) = 256"
  shows "fold (\<lambda>i. count_state (process_table k ! i)) [0..<MAX_PROCESSES] cs = fold count_state (process_table k) cs"
proof -
  have "fold count_state (process_table k) cs = fold count_state (map ((!) (process_table k)) [0..<256]) cs"
    using assms map_nth [of "process_table k"] by (simp del: upt_rec_numeral)
  then show ?thesis by (simp add: fold_map comp_def MAX_PROCESSES_def del: upt_rec_numeral)
qed

text \<open>\<^verbatim>\<open>scheduler_get_stats\<close> reports how many of the 256 slots are READY, RUNNING and BLOCKED, in
  three different words of memory. Right after \<^verbatim>\<open>proc_init\<close> it counts 255 READY processes, because
  unused slots are READY.\<close>

lemma scheduler_get_stats_counts:
  assumes "length (process_table k) = 256" and "r \<noteq> 0" and "n \<noteq> 0" and "b \<noteq> 0"
    and "cells_apart r n" and "cells_apart r b" and "cells_apart n b"
  shows "let (e, k') = scheduler_get_stats r n b k;
             count = (\<lambda>st. of_nat (length (filter (\<lambda>p. proc_state p = st) (process_table k))))
         in e = 0 \<and> load32 (mem k') r = count PROC_STATE_READY
            \<and> load32 (mem k') n = count PROC_STATE_RUNNING \<and> load32 (mem k') b = count PROC_STATE_BLOCKED
            \<and> process_table k' = process_table k"
  using assms cells_apart_sym
  by (simp add: scheduler_get_stats_def fold_count_table count_states store_unless_null_def load32_store32_apart
      Let_def)

lemma scheduler_get_stats_counts_witness:
  "load32 (mem (snd (scheduler_get_stats 0x1000 0x1004 0x1008 kmain_proc))) 0x1000 = 255"
proof -
  have "filter (\<lambda>p. proc_state p = PROC_STATE_READY) (process_table kmain_proc) = drop 1 (process_table kmain_proc)"
  proof -
    let ?h = "snd (heap_init 0xC0100000 0x800000 (snd (pmm_alloc (snd (pmm_init 0x8000000
      (boot_kernel (\<lambda>_. 0) (\<lambda>_. 0) (\<lambda>_ _. 0)))))))"
    have l: "length (process_table ?h) = 256"
    proof -
      obtain m p where "snd (pmm_alloc (snd (pmm_init 0x8000000 (boot_kernel (\<lambda>_. 0) (\<lambda>_. 0) (\<lambda>_ _. 0)))))
        = (snd (pmm_init 0x8000000 (boot_kernel (\<lambda>_. 0) (\<lambda>_. 0) (\<lambda>_ _. 0))))\<lparr>mem := m, pmm_state := p\<rparr>"
        using pmm_alloc_frame by blast
      then show ?thesis by (simp add: heap_init_def) (simp add: pmm_init_def boot_kernel_def Let_def)
    qed
    have st: "proc_state (process_table kmain_proc ! i) = (if i = 0 then PROC_STATE_RUNNING else PROC_STATE_READY)"
      if "i < 256" for i
      using proc_init_table(2) [OF l that] by (simp add: kmain_proc_def)
    obtain p ps where t: "process_table kmain_proc = p # ps"
      using kmain_proc_ok(1) by (cases "process_table kmain_proc") auto
    have "proc_state q = PROC_STATE_READY" if "q \<in> set ps" for q
    proof -
      obtain j where "j < length ps" "q = ps ! j" using \<open>q \<in> set ps\<close> by (auto simp: in_set_conv_nth)
      then show ?thesis using st [of "Suc j"] kmain_proc_ok(1) t by simp
    qed
    moreover have "proc_state p = PROC_STATE_RUNNING" using st [of 0] t by simp
    ultimately show ?thesis using t by simp
  qed
  then have "length (filter (\<lambda>p. proc_state p = PROC_STATE_READY) (process_table kmain_proc)) = 255"
    using kmain_proc_ok(1) by simp
  then show ?thesis
    using scheduler_get_stats_counts [OF kmain_proc_ok(1), of "0x1000" "0x1004" "0x1008"]
    by (simp add: cells_apart_def case_prod_unfold Let_def)
qed

text \<open>Blocking is undone by unblocking: \<^verbatim>\<open>proc_block\<close> puts the current process to sleep on a
  resource, \<^verbatim>\<open>proc_unblock\<close> of it succeeds and makes it READY with no resource; of a process that is
  not BLOCKED, or of a number from 256 on, it is refused without a change.\<close>

lemma proc_block_unblock:
  assumes "length (process_table k) = 256" and "current_process k = Some i" and "i < 256"
  shows "let k1 = snd (proc_block res k); k2 = snd (proc_unblock (of_nat i) k1)
    in fst (proc_block res k) = 0 \<and> proc_state (process_table k1 ! i) = PROC_STATE_BLOCKED
       \<and> blocked_on (process_table k1 ! i) = res
       \<and> fst (proc_unblock (of_nat i) k1) = 0
       \<and> process_table k2 = (process_table k)[i := (process_table k ! i)\<lparr>proc_state := PROC_STATE_READY, blocked_on := 0\<rparr>]
       \<and> proc_unblock (of_nat i) k2 = (-1, k2)
       \<and> (256 \<le> q \<longrightarrow> proc_unblock q k = (-1, k))"
  using assms
  by (auto simp: proc_block_def proc_unblock_def MAX_PROCESSES_def word_le_nat_alt Let_def)

lemma proc_block_unblock_witness:
  "proc_state (process_table (snd (proc_block 5 kmain_proc)) ! 0) = PROC_STATE_BLOCKED"
proof -
  have "current_process kmain_proc = Some 0" using proc_init_rest by (auto simp: kmain_proc_def proc_init_def Let_def)
  from proc_block_unblock [OF kmain_proc_ok(1) this, of 5] show ?thesis by (simp add: Let_def)
qed

end
