(* ===== verification/Scheduler.thy ===== *)
theory Scheduler
  imports Process
begin

text \<open>
  The scheduler, \<^verbatim>\<open>src/kernel/proc/scheduler.c\<close>: the programming of the timer, the handler of its
  interrupt, and the switch to another process. Contexts are addresses, as in the code. The lemmas
  say which process is chosen, when, and what happens to the one that was current; a step relation
  over all operations on processes gives what holds in every state they can reach.
\<close>

section \<open>The code\<close>

definition PIT_PORT_CMD :: u16 where "PIT_PORT_CMD = 0x43"
definition PIT_PORT_DATA :: u16 where "PIT_PORT_DATA = 0x40"
definition PIT_FREQUENCY :: u32 where "PIT_FREQUENCY = 1193182"
definition PIT_DIVISOR :: u32 where "PIT_DIVISOR = PIT_FREQUENCY div 100"

definition scheduler_init :: "kernel \<Rightarrow> (int \<times> kernel) option" where
  "scheduler_init k =
     (let k = outb PIT_PORT_CMD 0x34 k;
          k = outb PIT_PORT_DATA (ucast (PIT_DIVISOR AND 0xFF)) k;
          k = outb PIT_PORT_DATA (ucast (drop_bit 8 PIT_DIVISOR AND 0xFF)) k;
          k = snd (idt_register_handler 32 Scheduler_tick k)
      in case irq_enable 0 k of None \<Rightarrow> None | Some k \<Rightarrow> Some (1, k))"

definition context_switch :: "u32 \<Rightarrow> kernel \<Rightarrow> u32 \<times> kernel" where
  "context_switch ctx k =
     (let current = proc_get_current k;
          nxt = (case find (\<lambda>i. proc_state (process_table k ! i) = PROC_STATE_READY) [0..<MAX_PROCESSES] of
                   Some i \<Rightarrow> i | None \<Rightarrow> 0);
          k = (case current of
                 None \<Rightarrow> k
               | Some c \<Rightarrow> upd_pcb c (\<lambda>p. p\<lparr>proc_state := PROC_STATE_READY, pcb_context := ctx\<rparr>) k);
          k = upd_pcb nxt (\<lambda>p. p\<lparr>proc_state := PROC_STATE_RUNNING,
                time_slice_remaining := SCHEDULER_TIME_SLICE, total_runtime := total_runtime p + 1\<rparr>) k;
          c = pcb_context (process_table k ! nxt)
      in (if c \<noteq> 0 then c else ctx, k))"

definition scheduler_tick :: "u32 \<Rightarrow> kernel \<Rightarrow> kernel" where
  "scheduler_tick ctx k =
     (let k = k\<lparr>scheduler_ticks := scheduler_ticks k + 1\<rparr>
      in case proc_get_current k of
           None \<Rightarrow> k
         | Some c \<Rightarrow>
             let k = (if time_slice_remaining (process_table k ! c) > 0
                      then upd_pcb c (\<lambda>p. p\<lparr>time_slice_remaining := time_slice_remaining p - 1\<rparr>) k else k);
                 k = (if time_slice_remaining (process_table k ! c) = 0
                         \<or> proc_state (process_table k ! c) \<noteq> PROC_STATE_RUNNING
                      then snd (context_switch ctx k) else k)
             in outb 0x20 0x20 k)"

definition scheduler_get_ticks :: "kernel \<Rightarrow> u32" where
  "scheduler_get_ticks k = scheduler_ticks k"

section \<open>The choice of the next process\<close>

text \<open>The lowest READY slot, or slot 0.\<close>

definition next_process :: "kernel \<Rightarrow> nat" where
  "next_process k =
     (case find (\<lambda>i. proc_state (process_table k ! i) = PROC_STATE_READY) [0..<256] of
        Some i \<Rightarrow> i | None \<Rightarrow> 0)"

lemma next_process_least:
  assumes "i < 256" and "proc_state (process_table k ! i) = PROC_STATE_READY"
    and "\<forall>j<i. proc_state (process_table k ! j) \<noteq> PROC_STATE_READY"
  shows "next_process k = i"
proof -
  have "find (\<lambda>i. proc_state (process_table k ! i) = PROC_STATE_READY) [0..<256] = Some i"
    unfolding find_Some_iff using assms by (intro exI [of _ i]) (auto simp del: upt_rec_numeral)
  then show ?thesis by (simp add: next_process_def)
qed

lemma next_process_none:
  "\<forall>i<256. proc_state (process_table k ! i) \<noteq> PROC_STATE_READY \<Longrightarrow> next_process k = 0"
proof -
  assume "\<forall>i<256. proc_state (process_table k ! i) \<noteq> PROC_STATE_READY"
  then have "find (\<lambda>i. proc_state (process_table k ! i) = PROC_STATE_READY) [0..<256] = None"
    unfolding find_None_iff by (auto simp del: upt_rec_numeral)
  then show ?thesis by (simp add: next_process_def)
qed

lemma next_process_cases:
  "(next_process k < 256 \<and> proc_state (process_table k ! next_process k) = PROC_STATE_READY
      \<and> (\<forall>j<next_process k. proc_state (process_table k ! j) \<noteq> PROC_STATE_READY))
   \<or> (next_process k = 0 \<and> (\<forall>i<256. proc_state (process_table k ! i) \<noteq> PROC_STATE_READY))"
proof (cases "\<exists>i<256. proc_state (process_table k ! i) = PROC_STATE_READY")
  case True
  then obtain m where m: "m < 256" "proc_state (process_table k ! m) = PROC_STATE_READY" by blast
  then obtain i where "i \<le> m" "proc_state (process_table k ! i) = PROC_STATE_READY"
      "\<forall>j<i. proc_state (process_table k ! j) \<noteq> PROC_STATE_READY"
    using ex_least_nat_le [of "\<lambda>i. proc_state (process_table k ! i) = PROC_STATE_READY" m] by blast
  then show ?thesis using next_process_least [of i k] m(1) by auto
next
  case False
  then show ?thesis using next_process_none by blast
qed

lemma next_process_bound: "next_process k < 256"
  using next_process_cases [of k] by auto

lemma context_switch_next:
  "context_switch ctx k =
     (let k1 = (case current_process k of
                  None \<Rightarrow> k
                | Some c \<Rightarrow> upd_pcb c (\<lambda>p. p\<lparr>proc_state := PROC_STATE_READY, pcb_context := ctx\<rparr>) k);
          k2 = upd_pcb (next_process k) (\<lambda>p. p\<lparr>proc_state := PROC_STATE_RUNNING,
                time_slice_remaining := 10, total_runtime := total_runtime p + 1\<rparr>) k1;
          c = pcb_context (process_table k2 ! next_process k)
      in (if c \<noteq> 0 then c else ctx, k2))"
  by (simp add: context_switch_def next_process_def MAX_PROCESSES_def SCHEDULER_TIME_SLICE_def
      proc_get_current_def Let_def del: upt_rec_numeral)

text \<open>The control blocks after a switch.\<close>

lemma context_switch_table:
  assumes "length (process_table k) = 256" and "current_process k = Some c" and "c < 256" and "j < 256"
  shows "process_table (snd (context_switch ctx k)) ! j =
    (let p = (if j = c then (process_table k ! j)\<lparr>proc_state := PROC_STATE_READY, pcb_context := ctx\<rparr>
              else process_table k ! j)
     in if j = next_process k
        then p\<lparr>proc_state := PROC_STATE_RUNNING, time_slice_remaining := 10, total_runtime := total_runtime p + 1\<rparr>
        else p)"
  using assms next_process_bound [of k]
  by (auto simp: context_switch_next nth_list_update Let_def)

lemma context_switch_rest:
  "length (process_table (snd (context_switch ctx k))) = length (process_table k)"
  "current_process (snd (context_switch ctx k)) = current_process k"
  "current_pid (snd (context_switch ctx k)) = current_pid k"
  "next_pid (snd (context_switch ctx k)) = next_pid k"
  by (simp_all add: context_switch_next Let_def split: option.split)

text \<open>A switch and a tick leave memory and devices alone.\<close>

lemma context_switch_frame [simp]:
  "mem (snd (context_switch ctx k)) = mem k" "heap_state (snd (context_switch ctx k)) = heap_state k"
  "pmm_state (snd (context_switch ctx k)) = pmm_state k" "kbd_state (snd (context_switch ctx k)) = kbd_state k"
  "vga_state (snd (context_switch ctx k)) = vga_state k" "cr3 (snd (context_switch ctx k)) = cr3 k"
  by (simp_all add: context_switch_next Let_def split: option.split)

lemma scheduler_tick_frame [simp]:
  "mem (scheduler_tick ctx k) = mem k" "heap_state (scheduler_tick ctx k) = heap_state k"
  "pmm_state (scheduler_tick ctx k) = pmm_state k" "kbd_state (scheduler_tick ctx k) = kbd_state k"
  "vga_state (scheduler_tick ctx k) = vga_state k" "cr3 (scheduler_tick ctx k) = cr3 k"
  by (simp_all add: scheduler_tick_def Let_def outb_def split: option.split)

lemma tick_within_slice:
  assumes "length (process_table k) = 256" and "current_process k = Some c" and "c < 256"
    and "proc_state (process_table k ! c) = PROC_STATE_RUNNING"
    and "1 < time_slice_remaining (process_table k ! c)"
  shows "process_table (scheduler_tick ctx k) =
      (process_table k)[c := (process_table k ! c)\<lparr>time_slice_remaining := time_slice_remaining (process_table k ! c) - 1\<rparr>]"
    and "current_process (scheduler_tick ctx k) = Some c"
    and "port_out (scheduler_tick ctx k) = port_out k @ [(0x20, 0x20)]"
proof -
  have "0 < time_slice_remaining (process_table k ! c)" "time_slice_remaining (process_table k ! c) - 1 \<noteq> 0"
    using assms(5) by (auto simp: word_gt_0)
  then show "process_table (scheduler_tick ctx k) =
      (process_table k)[c := (process_table k ! c)\<lparr>time_slice_remaining := time_slice_remaining (process_table k ! c) - 1\<rparr>]"
    and "current_process (scheduler_tick ctx k) = Some c"
    and "port_out (scheduler_tick ctx k) = port_out k @ [(0x20, 0x20)]"
    using assms(1-4) by (simp_all add: scheduler_tick_def proc_get_current_def outb_def upd_pcb_def Let_def)
qed

text \<open>A tick that ends the time slice, or that finds the current process not RUNNING, switches.\<close>

lemma tick_switches:
  assumes "length (process_table k) = 256" and "current_process k = Some c" and "c < 256"
    and "time_slice_remaining (process_table k ! c) \<le> 1 \<or> proc_state (process_table k ! c) \<noteq> PROC_STATE_RUNNING"
  defines "k1 \<equiv> k\<lparr>scheduler_ticks := scheduler_ticks k + 1, process_table := (process_table k)[c := (process_table k ! c)
      \<lparr>time_slice_remaining := (if time_slice_remaining (process_table k ! c) > 0
         then time_slice_remaining (process_table k ! c) - 1 else 0)\<rparr>]\<rparr>"
  shows "scheduler_tick ctx k = outb 0x20 0x20 (snd (context_switch ctx k1))"
proof -
  let ?s = "time_slice_remaining (process_table k ! c)"
  have "?s \<le> 1 \<longleftrightarrow> ?s = 0 \<or> ?s = 1" by (auto simp: word_le_nat_alt le_Suc_eq word_unat_eq_iff)
  then have s: "(if ?s > 0 then ?s - 1 else 0) = 0 \<or> proc_state (process_table k ! c) \<noteq> PROC_STATE_RUNNING"
    using assms(4) by auto
  have z: "\<not> 0 < ?s \<Longrightarrow> (process_table k)[c := (process_table k ! c)\<lparr>time_slice_remaining := 0\<rparr>] = process_table k"
    using assms(1,3) by (intro nth_equalityI) (auto simp: nth_list_update word_gt_0)
  show ?thesis
    using s z assms(1-3)
    by (auto simp: scheduler_tick_def proc_get_current_def k1_def upd_pcb_def word_gt_0 Let_def)
qed

lemma tick_switches_state:
  assumes "length (process_table k) = 256" and "current_process k = Some c" and "c < 256"
    and "time_slice_remaining (process_table k ! c) \<le> 1 \<or> proc_state (process_table k ! c) \<noteq> PROC_STATE_RUNNING"
  obtains k1 where "scheduler_tick ctx k = outb 0x20 0x20 (snd (context_switch ctx k1))"
    and "length (process_table k1) = 256" and "current_process k1 = Some c"
    and "\<And>j. proc_state (process_table k1 ! j) = proc_state (process_table k ! j)"
    and "\<And>j. pid (process_table k1 ! j) = pid (process_table k ! j)"
    and "time_slice_remaining (process_table k ! c) = 0 \<Longrightarrow> time_slice_remaining (process_table k1 ! c) = 0"
proof -
  let ?p = "(process_table k ! c)\<lparr>time_slice_remaining := (if time_slice_remaining (process_table k ! c) > 0
         then time_slice_remaining (process_table k ! c) - 1 else 0)\<rparr>"
  let ?k1 = "k\<lparr>scheduler_ticks := scheduler_ticks k + 1, process_table := (process_table k)[c := ?p]\<rparr>"
  have j: "process_table ?k1 ! j = (if j = c then ?p else process_table k ! j)" for j
    using assms(1,3) by (auto simp: nth_list_update)
  show ?thesis
  proof (rule that [of ?k1])
    show "scheduler_tick ctx k = outb 0x20 0x20 (snd (context_switch ctx ?k1))" by (rule tick_switches [OF assms])
    show "length (process_table ?k1) = 256" "current_process ?k1 = Some c" using assms(1,2) by simp_all
    show "proc_state (process_table ?k1 ! j) = proc_state (process_table k ! j)"
      "pid (process_table ?k1 ! j) = pid (process_table k ! j)" for j unfolding j by simp_all
    show "time_slice_remaining (process_table k ! c) = 0 \<Longrightarrow> time_slice_remaining (process_table ?k1 ! c) = 0"
      unfolding j by simp
  qed
qed

section \<open>Reachable states\<close>

text \<open>Every operation that changes processes, in any order; \<open>proc_run k k'\<close> is a sequence of them.\<close>

inductive proc_step :: "kernel \<Rightarrow> kernel \<Rightarrow> bool" where
  step_tick: "proc_step k (scheduler_tick ctx k)"
| step_create: "proc_create entry prio k = Some (r, k') \<Longrightarrow> proc_step k k'"
| step_exit: "proc_step k (snd (proc_exit p k))"
| step_block: "proc_step k (snd (proc_block res k))"
| step_unblock: "proc_step k (snd (proc_unblock p k))"

abbreviation proc_run :: "kernel \<Rightarrow> kernel \<Rightarrow> bool" where
  "proc_run \<equiv> proc_step\<^sup>*\<^sup>*"

inductive_cases proc_stepE: "proc_step k k'"

text \<open>What they keep: slot 0 is the current process for ever; every slot is numbered 0 or by its
  place; and no slot but slot 0 has a time slice other than none and a full one.\<close>

definition sched_inv :: "kernel \<Rightarrow> bool" where
  "sched_inv k \<longleftrightarrow>
     length (process_table k) = 256 \<and> current_process k = Some 0 \<and> current_pid k = 0
     \<and> (\<forall>j<256. pid (process_table k ! j) = 0 \<or> pid (process_table k ! j) = of_nat j)
     \<and> (\<forall>j<256. j \<noteq> 0 \<longrightarrow> time_slice_remaining (process_table k ! j) \<in> {0, 10})"

definition slot_ok :: "nat \<Rightarrow> pcb_t \<Rightarrow> bool" where
  "slot_ok j p \<longleftrightarrow> (pid p = 0 \<or> pid p = of_nat j) \<and> (j \<noteq> 0 \<longrightarrow> time_slice_remaining p \<in> {0, 10})"

lemma sched_inv_slots:
  "sched_inv k \<longleftrightarrow> length (process_table k) = 256 \<and> current_process k = Some 0 \<and> current_pid k = 0
     \<and> (\<forall>j<256. slot_ok j (process_table k ! j))"
  by (auto simp: sched_inv_def slot_ok_def)

lemma sched_inv_cong:
  "process_table k' = process_table k \<Longrightarrow> current_process k' = current_process k \<Longrightarrow>
     current_pid k' = current_pid k \<Longrightarrow> sched_inv k \<Longrightarrow> sched_inv k'"
  by (simp add: sched_inv_def)

lemma sched_inv_upd_pcb:
  assumes "sched_inv k" and "\<And>p. slot_ok i p \<Longrightarrow> slot_ok i (f p)"
  shows "sched_inv (upd_pcb i f k)"
proof -
  have "slot_ok j (process_table (upd_pcb i f k) ! j)" if "j < 256" for j
    using assms that by (cases "j = i") (auto simp: sched_inv_slots)
  then show ?thesis using assms(1) by (simp add: sched_inv_slots)
qed

lemma sched_inv_switch:
  assumes "sched_inv k"
  shows "sched_inv (snd (context_switch ctx k))"
proof -
  have "slot_ok j (process_table (snd (context_switch ctx k)) ! j)" if "j < 256" for j
    using assms that context_switch_table [of k 0 j ctx] by (auto simp: sched_inv_slots slot_ok_def Let_def)
  then show ?thesis using assms by (simp add: sched_inv_slots context_switch_rest)
qed

lemma sched_inv_tick:
  assumes "sched_inv k"
  shows "sched_inv (scheduler_tick ctx k)"
proof -
  let ?k1 = "k\<lparr>scheduler_ticks := scheduler_ticks k + 1\<rparr>"
  have 1: "sched_inv ?k1" using assms by (rule sched_inv_cong [rotated 3]) simp_all
  have 2: "sched_inv (upd_pcb 0 (\<lambda>p. p\<lparr>time_slice_remaining := time_slice_remaining p - 1\<rparr>) ?k1)"
    using 1 by (rule sched_inv_upd_pcb) (auto simp: slot_ok_def)
  have o: "sched_inv k2 \<Longrightarrow> sched_inv (outb a b k2)" for a b k2
    by (rule sched_inv_cong [of _ k2]) (simp_all add: outb_def)
  have "current_process k = Some 0" using assms by (simp add: sched_inv_def)
  then show ?thesis
    using 1 2 by (simp add: scheduler_tick_def proc_get_current_def Let_def o sched_inv_switch)
qed

lemma sched_inv_alloc: "sched_inv k \<Longrightarrow> sched_inv (snd (pmm_alloc k))"
  using pmm_alloc_frame [of k] by (auto simp: sched_inv_def)

lemma sched_inv_kmalloc: "sched_inv k \<Longrightarrow> kmalloc n k = Some (p, k') \<Longrightarrow> sched_inv k'"
  by (rule sched_inv_cong [of k' k]) (simp_all add: kmalloc_rest)

lemma sched_inv_create:
  assumes "sched_inv k" and "proc_create entry prio k = Some (r, k')"
  shows "sched_inv k'"
proof -
  have "sched_inv (upd_pcb (unat (next_pid k)) (new_pcb prio k) k)"
    using assms(1) by (rule sched_inv_upd_pcb) (auto simp: slot_ok_def SCHEDULER_TIME_SLICE_def)
  then have k3: "sched_inv (snd (pmm_alloc (snd (pmm_alloc (upd_pcb (unat (next_pid k)) (new_pcb prio k) k)))))"
    by (intro sched_inv_alloc)
  show ?thesis
  proof (cases rule: proc_create_steps [OF assms(2)])
    case (3 k3 stack pd c k5 k6)
    have "sched_inv (upd_pcb (unat (next_pid k3)) (\<lambda>p. p\<lparr>kernel_stack := stack, page_dir_phys := pd\<rparr>) k3)"
      using k3 unfolding 3(2) by (rule sched_inv_upd_pcb) (auto simp: slot_ok_def)
    from sched_inv_kmalloc [OF this 3(3)] have "sched_inv k6"
      unfolding 3(4) by (rule sched_inv_upd_pcb) (auto simp: slot_ok_def)
    then show ?thesis using sched_inv_cong [of k' k6] 3(5) by simp
  qed (use assms(1) k3 in simp_all)
qed

lemma sched_inv_step: "proc_step k k' \<Longrightarrow> sched_inv k \<Longrightarrow> sched_inv k'"
proof (erule proc_stepE)
  show "sched_inv k \<Longrightarrow> k' = snd (proc_exit p k) \<Longrightarrow> sched_inv k'" for p
    by (auto simp: proc_exit_def slot_ok_def intro!: sched_inv_upd_pcb)
  show "sched_inv k \<Longrightarrow> k' = snd (proc_block res k) \<Longrightarrow> sched_inv k'" for res
    by (auto simp: proc_block_def slot_ok_def intro!: sched_inv_upd_pcb split: option.split)
  show "sched_inv k \<Longrightarrow> k' = snd (proc_unblock p k) \<Longrightarrow> sched_inv k'" for p
    by (auto simp: proc_unblock_def slot_ok_def intro!: sched_inv_upd_pcb)
qed (auto simp: sched_inv_tick sched_inv_create)

interpretation procs: step_invariant proc_step sched_inv
  by unfold_locales (rule sched_inv_step)

section \<open>Properties\<close>

text \<open>C14: a switch chooses the READY process with the lowest number (slot 0 if there is none), makes
  it RUNNING with a full time slice and one more run, makes the current process READY with the
  interrupted context, unless it is the one chosen, and changes no other slot. It returns the saved
  context of the chosen process, or the interrupted one if there is none. The pointer to the current
  process stays where it was.\<close>

theorem context_switch_exact:
  assumes "length (process_table k) = 256" and "current_process k = Some c" and "c < 256"
  shows "let (r, k') = context_switch ctx k; n = next_process k
    in n < 256 \<and> (if \<exists>i<256. proc_state (process_table k ! i) = PROC_STATE_READY
          then proc_state (process_table k ! n) = PROC_STATE_READY
            \<and> (\<forall>j<n. proc_state (process_table k ! j) \<noteq> PROC_STATE_READY)
          else n = 0)
       \<and> r = (if n = c \<or> pcb_context (process_table k ! n) = 0 then ctx else pcb_context (process_table k ! n))
       \<and> process_table k' ! n =
           (if n = c then (process_table k ! n)\<lparr>pcb_context := ctx\<rparr> else process_table k ! n)
             \<lparr>proc_state := PROC_STATE_RUNNING, time_slice_remaining := 10,
              total_runtime := total_runtime (process_table k ! n) + 1\<rparr>
       \<and> (c \<noteq> n \<longrightarrow> process_table k' ! c =
            (process_table k ! c)\<lparr>proc_state := PROC_STATE_READY, pcb_context := ctx\<rparr>)
       \<and> (\<forall>j<256. j \<noteq> n \<and> j \<noteq> c \<longrightarrow> process_table k' ! j = process_table k ! j)
       \<and> current_process k' = Some c"
proof -
  let ?n = "next_process k"
  have "fst (context_switch ctx k) = (let p = pcb_context (process_table (snd (context_switch ctx k)) ! ?n) in if p \<noteq> 0 then p else ctx)"
    by (simp add: context_switch_next Let_def)
  then have "fst (context_switch ctx k) =
      (if ?n = c \<or> pcb_context (process_table k ! ?n) = 0 then ctx else pcb_context (process_table k ! ?n))"
    using context_switch_table [OF assms next_process_bound, of ctx k] by (auto simp: Let_def)
  then show ?thesis
    using next_process_cases [of k] next_process_bound [of k] context_switch_table [OF assms, of _ ctx]
      assms(2,3) context_switch_rest(2) [of ctx k]
    by (auto simp: case_prod_unfold Let_def)
qed

lemma kmain_proc_table:
  assumes "j < 256"
  shows "proc_state (process_table kmain_proc ! j) = (if j = 0 then PROC_STATE_RUNNING else PROC_STATE_READY)"
    and "pid (process_table kmain_proc ! j) = 0" and "time_slice_remaining (process_table kmain_proc ! j) = 0"
proof -
  let ?b = "snd (pmm_init 0x8000000 (boot_kernel (\<lambda>_. 0) (\<lambda>_. 0) (\<lambda>_ _. 0)))"
  let ?h = "snd (heap_init 0xC0100000 0x800000 (snd (pmm_alloc ?b)))"
  have t: "process_table ?h = replicate 256 zero_pcb"
    using pmm_alloc_frame [of ?b] by (auto simp: heap_init_def pmm_init_def boot_kernel_def Let_def)
  then have l: "length (process_table ?h) = 256" by simp
  have "process_table ?h ! j = zero_pcb" unfolding t using assms by (rule nth_replicate)
  then show "proc_state (process_table kmain_proc ! j) = (if j = 0 then PROC_STATE_RUNNING else PROC_STATE_READY)"
    "pid (process_table kmain_proc ! j) = 0" "time_slice_remaining (process_table kmain_proc ! j) = 0"
    using proc_init_table(2) [OF l, of j] assms by (simp_all add: kmain_proc_def zero_pcb_def)
qed

lemma kmain_proc_current: "current_process kmain_proc = Some 0" "current_pid kmain_proc = 0"
  by (simp_all add: kmain_proc_def proc_init_def Let_def)

text \<open>Slot 1 has a saved context at 0x5000.\<close>

theorem context_switch_exact_witness:
  "fst (context_switch 0x9000 (upd_pcb 1 (\<lambda>p. p\<lparr>pcb_context := 0x5000\<rparr>) kmain_proc)) = 0x5000"
proof -
  let ?k = "upd_pcb 1 (\<lambda>p. p\<lparr>pcb_context := 0x5000\<rparr>) kmain_proc"
  have k: "length (process_table ?k) = 256" "current_process ?k = Some 0"
    by (simp_all add: kmain_proc_ok(1) kmain_proc_current)
  have "next_process ?k = 1"
    by (rule next_process_least) (auto simp: kmain_proc_table kmain_proc_ok(1))
  then show ?thesis
    using context_switch_exact [OF k, of "0x9000"] by (simp add: case_prod_unfold Let_def kmain_proc_ok(1))
qed

text \<open>Ticks before the last one of the slice only count.\<close>

lemma ticks_within_slice:
  assumes "length (process_table k) = 256" and "current_process k = Some c" and "c < 256"
    and "proc_state (process_table k ! c) = PROC_STATE_RUNNING"
    and "length xs < unat (time_slice_remaining (process_table k ! c))"
  shows "process_table (fold scheduler_tick xs k) = (process_table k)[c := (process_table k ! c)
        \<lparr>time_slice_remaining := time_slice_remaining (process_table k ! c) - of_nat (length xs)\<rparr>]
    \<and> current_process (fold scheduler_tick xs k) = Some c
    \<and> port_out (fold scheduler_tick xs k) = port_out k @ replicate (length xs) (0x20, 0x20)"
  using assms(5)
proof (induction xs rule: rev_induct)
  case Nil
  then show ?case using assms(1-3) by (auto intro!: nth_equalityI simp: nth_list_update)
next
  case (snoc x xs)
  let ?k = "fold scheduler_tick xs k" and ?s = "time_slice_remaining (process_table k ! c)"
  have ih: "process_table ?k = (process_table k)[c := (process_table k ! c)\<lparr>time_slice_remaining := ?s - of_nat (length xs)\<rparr>]"
      "current_process ?k = Some c" "port_out ?k = port_out k @ replicate (length xs) (0x20, 0x20)"
    using snoc by auto
  have u: "unat (of_nat (length xs) :: u32) = length xs"
    using snoc.prems unat_less_2p32 [of ?s] by (intro unat_of_nat_u32) (simp del: unat_less_2p32)
  then have "unat (?s - of_nat (length xs)) = unat ?s - length xs"
    using snoc.prems by (subst unat_sub) (simp_all add: word_le_nat_alt)
  then have "1 < ?s - of_nat (length xs)" using snoc.prems by (simp add: word_less_nat_alt)
  then show ?case
    using tick_within_slice [of ?k c x] ih assms(1,3,4)
    by (simp add: replicate_append_same diff_diff_eq add.commute)
qed

lemma next_process_cong:
  assumes "\<And>j. proc_state (process_table k' ! j) = proc_state (process_table k ! j)"
  shows "next_process k' = next_process k"
  by (simp add: next_process_def assms)

text \<open>The tick that uses up the slice of a running process.\<close>

lemma tick_ends_slice:
  fixes ctx :: u32
  assumes "length (process_table k) = 256" and "current_process k = Some c" and "c < 256"
    and "proc_state (process_table k ! c) = PROC_STATE_RUNNING" and "time_slice_remaining (process_table k ! c) = 1"
  defines "k' \<equiv> scheduler_tick ctx k" and "n \<equiv> next_process k"
  shows "current_process k' = Some c \<and> (n = c \<longleftrightarrow> c = 0 \<and> (\<forall>i<256. proc_state (process_table k ! i) \<noteq> PROC_STATE_READY))
    \<and> proc_state (process_table k' ! n) = PROC_STATE_RUNNING \<and> time_slice_remaining (process_table k' ! n) = 10
    \<and> (n \<noteq> c \<longrightarrow> process_table k' ! c =
         (process_table k ! c)\<lparr>time_slice_remaining := 0, proc_state := PROC_STATE_READY, pcb_context := ctx\<rparr>)
    \<and> (\<forall>j<256. j \<noteq> n \<and> j \<noteq> c \<longrightarrow> process_table k' ! j = process_table k ! j)"
proof -
  define q where "q = k\<lparr>scheduler_ticks := scheduler_ticks k + 1,
    process_table := (process_table k)[c := (process_table k ! c)\<lparr>time_slice_remaining := 0\<rparr>]\<rparr>"
  have t: "k' = outb 0x20 0x20 (snd (context_switch ctx q))"
    using tick_switches [OF assms(1-3), of ctx] assms(5) by (simp add: k'_def q_def)
  have l: "length (process_table q) = 256" "current_process q = Some c" using assms(1,2) by (simp_all add: q_def)
  have j: "process_table q ! j = (if j = c then (process_table k ! c)\<lparr>time_slice_remaining := 0\<rparr> else process_table k ! j)" for j
    using assms(1,3) by (auto simp: q_def nth_list_update)
  have n: "next_process q = n" unfolding n_def by (rule next_process_cong) (simp add: j)
  have "n = c \<longleftrightarrow> c = 0 \<and> (\<forall>i<256. proc_state (process_table k ! i) \<noteq> PROC_STATE_READY)"
    using next_process_cases [of k] next_process_none [of k] assms(4) by (auto simp: n_def)
  moreover have "n < 256" using next_process_bound by (simp add: n_def)
  ultimately show ?thesis
    using context_switch_table [OF l assms(3), of _ ctx, unfolded n] context_switch_rest(2) [of ctx q] assms(3) l(2)
    by (auto simp: t outb_def j Let_def)
qed

text \<open>C33: the time slice. A running process is charged one unit by every tick, which changes nothing else
  in the table (and acknowledges the interrupt). The tick that uses up its last unit makes it READY with
  the interrupted context and makes the READY process with the lowest number RUNNING, with a full slice;
  only slot 0, when nobody is READY, goes on with a full slice instead. \<^verbatim>\<open>current_process\<close> still names the
  process that was charged.\<close>

theorem time_slice_respected:
  assumes "length (process_table k) = 256" and "current_process k = Some c" and "c < 256"
    and "proc_state (process_table k ! c) = PROC_STATE_RUNNING"
    and "length ctxs < unat (time_slice_remaining (process_table k ! c))"
  shows "let k' = fold scheduler_tick ctxs k; s = time_slice_remaining (process_table k ! c) - of_nat (length ctxs)
    in process_table k' = (process_table k)[c := (process_table k ! c)\<lparr>time_slice_remaining := s\<rparr>]
       \<and> current_process k' = Some c
       \<and> port_out k' = port_out k @ replicate (length ctxs) (0x20, 0x20)
       \<and> (s = 1 \<longrightarrow> (let k'' = scheduler_tick ctx k'; n = next_process k
            in current_process k'' = Some c
              \<and> (n = c \<longleftrightarrow> c = 0 \<and> (\<forall>i<256. proc_state (process_table k ! i) \<noteq> PROC_STATE_READY))
              \<and> proc_state (process_table k'' ! n) = PROC_STATE_RUNNING \<and> time_slice_remaining (process_table k'' ! n) = 10
              \<and> (n \<noteq> c \<longrightarrow> process_table k'' ! c =
                   (process_table k ! c)\<lparr>time_slice_remaining := 0, proc_state := PROC_STATE_READY, pcb_context := ctx\<rparr>)
              \<and> (\<forall>j<256. j \<noteq> n \<and> j \<noteq> c \<longrightarrow> process_table k'' ! j = process_table k ! j)))"
proof -
  let ?k = "fold scheduler_tick ctxs k"
  let ?s = "time_slice_remaining (process_table k ! c) - of_nat (length ctxs)"
  note w = ticks_within_slice [OF assms]
  have j: "process_table ?k ! j = (if j = c then (process_table k ! c)\<lparr>time_slice_remaining := ?s\<rparr> else process_table k ! j)" for j
    using w assms(1,3) by (auto simp: nth_list_update)
  have l: "length (process_table ?k) = 256" "current_process ?k = Some c" using w assms(1) by simp_all
  have n: "next_process ?k = next_process k" by (rule next_process_cong) (simp add: j)
  have r: "proc_state (process_table ?k ! c) = PROC_STATE_RUNNING" using assms(4) by (simp add: j)
  have i: "proc_state (process_table ?k ! i) = proc_state (process_table k ! i)" for i by (simp add: j)
  show ?thesis
    using w assms(1,3) tick_ends_slice [OF l assms(3) r, of ctx, unfolded n i] by (simp add: nth_list_update Let_def)
qed

text \<open>Nine ticks, and the tenth, for process 0 of a table in which slot 1 is READY.\<close>

theorem time_slice_respected_witness:
  "let k = upd_pcb 0 (\<lambda>p. p\<lparr>time_slice_remaining := 10\<rparr>) kmain_proc; k'' = scheduler_tick 7 (fold scheduler_tick [1, 2, 3, 4, 5, 6, 7, 8, 9] k)
   in proc_state (process_table k'' ! 0) = PROC_STATE_READY \<and> proc_state (process_table k'' ! 1) = PROC_STATE_RUNNING
      \<and> current_process k'' = Some 0"
proof -
  let ?k = "upd_pcb 0 (\<lambda>p. p\<lparr>time_slice_remaining := 10\<rparr>) kmain_proc"
  have k: "length (process_table ?k) = 256" "current_process ?k = Some 0" "(0 :: nat) < 256"
      "proc_state (process_table ?k ! 0) = PROC_STATE_RUNNING"
    by (simp_all add: kmain_proc_ok(1) kmain_proc_current kmain_proc_table)
  have s: "time_slice_remaining (process_table ?k ! 0) = 10" by (simp add: kmain_proc_ok(1))
  then have "length [1, 2, 3, 4, 5, 6, 7, 8, 9 :: u32] < unat (time_slice_remaining (process_table ?k ! 0))" by simp
  note t = time_slice_respected [OF k this, of 7]
  have "next_process ?k = 1"
    by (rule next_process_least) (auto simp: kmain_proc_table kmain_proc_ok(1))
  then show ?thesis using t s by (simp add: Let_def)
qed

text \<open>C34: a blocked process does not stay blocked: the next tick after the current process has blocked
  itself makes it READY again (or RUNNING, when it is slot 0 and no process is READY), without
  \<^verbatim>\<open>proc_unblock\<close>.\<close>

theorem tick_wakes_blocked_process:
  assumes "length (process_table k) = 256" and "current_process k = Some c" and "c < 256"
  shows "let k1 = snd (proc_block res k); k2 = scheduler_tick ctx k1
    in proc_state (process_table k1 ! c) = PROC_STATE_BLOCKED
       \<and> proc_state (process_table k2 ! c) =
           (if c = 0 \<and> (\<forall>i<256. i \<noteq> c \<longrightarrow> proc_state (process_table k ! i) \<noteq> PROC_STATE_READY)
            then PROC_STATE_RUNNING else PROC_STATE_READY)"
proof -
  let ?k1 = "snd (proc_block res k)"
  have b: "length (process_table ?k1) = 256" "current_process ?k1 = Some c"
      "proc_state (process_table ?k1 ! c) = PROC_STATE_BLOCKED"
      "\<And>i. i \<noteq> c \<Longrightarrow> process_table ?k1 ! i = process_table k ! i"
    using assms by (simp_all add: proc_block_def)
  obtain k2 where k2: "scheduler_tick ctx ?k1 = outb 0x20 0x20 (snd (context_switch ctx k2))"
      "length (process_table k2) = 256" "current_process k2 = Some c"
      "\<And>j. proc_state (process_table k2 ! j) = proc_state (process_table ?k1 ! j)"
    using tick_switches_state [OF b(1,2) assms(3), of ctx] b(3) by (metis proc_state_t.distinct(7))
  have "next_process k2 = c \<longleftrightarrow>
      c = 0 \<and> (\<forall>i<256. i \<noteq> c \<longrightarrow> proc_state (process_table k ! i) \<noteq> PROC_STATE_READY)"
    using next_process_cases [of k2] next_process_none [of k2] k2(4) b(3,4) assms(3) by (metis proc_state_t.distinct(3))
  then show ?thesis
    using b(3) k2(1) context_switch_table [OF k2(2,3) assms(3) assms(3), of ctx]
    by (auto simp: outb_def Let_def)
qed

theorem tick_wakes_blocked_process_witness:
  "proc_state (process_table (scheduler_tick 0x9000 (snd (proc_block 5 kmain_proc))) ! 0) = PROC_STATE_READY"
  using tick_wakes_blocked_process [OF kmain_proc_ok(1) kmain_proc_current(1), of 5 "0x9000"]
    kmain_proc_table(1) by (auto simp: Let_def intro!: exI [of _ 1])

text \<open>C18: in every state that ticks and process calls can reach, slot 0 is still the current process,
  whatever was scheduled in between; every slot has number 0 or its place in the table; and the
  time slice of every other slot is 0 or full, since no other process is ever charged for a tick.\<close>

theorem current_process_never_changes:
  assumes "proc_run k k'" and "sched_inv k"
  shows "current_process k' = Some 0
    \<and> (\<forall>j<256. pid (process_table k' ! j) = 0 \<or> pid (process_table k' ! j) = of_nat j)
    \<and> (\<forall>j<256. j \<noteq> 0 \<longrightarrow> time_slice_remaining (process_table k' ! j) \<in> {0, 10})"
  using procs.run_keeps [OF assms] unfolding sched_inv_def by blast

lemma kmain_proc_inv: "sched_inv kmain_proc"
  by (simp add: sched_inv_def kmain_proc_ok(1) kmain_proc_current kmain_proc_table)

theorem current_process_never_changes_witness:
  "current_process (scheduler_tick 7 (snd (proc_exit 1 kmain_proc))) = Some 0"
proof -
  have "proc_run kmain_proc (scheduler_tick 7 (snd (proc_exit 1 kmain_proc)))"
    by (rule rtranclp.rtrancl_into_rtrancl [OF r_into_rtranclp [of proc_step, OF step_exit] step_tick])
  from current_process_never_changes [OF this kmain_proc_inv] show ?thesis by simp
qed

text \<open>Two processes run at once. After \<^verbatim>\<open>proc_init\<close> with no time slice set, the second tick leaves
  slots 0 and 1 both RUNNING, and slot 1 has never been created.\<close>

lemma two_ticks_two_running:
  assumes "length (process_table k) = 256" and "time_slice_remaining (process_table k ! 0) = 0"
  shows "let k' = scheduler_tick b (scheduler_tick a (snd (proc_init k)))
    in {j. j < 256 \<and> proc_state (process_table k' ! j) = PROC_STATE_RUNNING} = {0, 1}
       \<and> pid (process_table k' ! 1) = 0"
proof -
  let ?k = "snd (proc_init k)"
  have l: "length (process_table ?k) = 256" by (rule proc_init_table(1) [OF assms(1)])
  note t = proc_init_table(2) [OF assms(1)] and c = proc_init_table(3) [OF assms(1)]
  obtain k1 where k1: "scheduler_tick a ?k = outb 0x20 0x20 (snd (context_switch a k1))"
      "length (process_table k1) = 256" "current_process k1 = Some 0"
      "\<And>j. proc_state (process_table k1 ! j) = proc_state (process_table ?k ! j)"
      "\<And>j. pid (process_table k1 ! j) = pid (process_table ?k ! j)"
      "time_slice_remaining (process_table k1 ! 0) = 0"
    by (rule tick_switches_state [OF l c, of a]) (use t [of 0] assms(2) in auto)
  have n1: "next_process k1 = 1" by (rule next_process_least) (use k1(4) t [of 0] t [of 1] in auto)
  let ?k2 = "outb 0x20 0x20 (snd (context_switch a k1))"
  have s2: "process_table ?k2 ! j = process_table (snd (context_switch a k1)) ! j" for j by (simp add: outb_def)
  have k2: "length (process_table ?k2) = 256" "current_process ?k2 = Some 0"
      "\<forall>j<256. proc_state (process_table ?k2 ! j) = (if j = 1 then PROC_STATE_RUNNING else PROC_STATE_READY)
        \<and> pid (process_table ?k2 ! j) = 0 \<and> (j = 0 \<longrightarrow> time_slice_remaining (process_table ?k2 ! j) = 0)"
    using k1 t context_switch_table [OF k1(2,3), of _ a] n1
    unfolding s2 by (auto simp: outb_def context_switch_rest Let_def)
  obtain k3 where k3: "scheduler_tick b ?k2 = outb 0x20 0x20 (snd (context_switch b k3))"
      "length (process_table k3) = 256" "current_process k3 = Some 0"
      "\<And>j. proc_state (process_table k3 ! j) = proc_state (process_table ?k2 ! j)"
      "\<And>j. pid (process_table k3 ! j) = pid (process_table ?k2 ! j)"
    by (rule tick_switches_state [OF k2(1,2), of b]) (use k2(3) in auto)
  have n3: "next_process k3 = 0" by (rule next_process_least) (use k3(4) k2(3) in auto)
  have s3: "process_table (scheduler_tick b ?k2) ! j = process_table (snd (context_switch b k3)) ! j" for j
    unfolding k3(1) by (simp add: outb_def)
  have "proc_state (process_table (scheduler_tick b ?k2) ! j) = PROC_STATE_RUNNING \<longleftrightarrow> j = 0 \<or> j = 1"
      "pid (process_table (scheduler_tick b ?k2) ! j) = 0" if "j < 256" for j
    using that k3(4,5) k2(3) context_switch_table [OF k3(2,3) _ that, of b] n3
    unfolding s3 by (auto simp: Let_def)
  then show ?thesis unfolding k1(1) Let_def by auto
qed

lemma two_ticks_two_running_witness:
  "{j. j < 256 \<and> proc_state (process_table (scheduler_tick 0 (scheduler_tick 0 (snd (proc_init
      (boot_kernel (\<lambda>_. 0) (\<lambda>_. 0) (\<lambda>_ _. 0)))))) ! j) = PROC_STATE_RUNNING} = {0, 1}"
proof -
  have "length (process_table (boot_kernel (\<lambda>_. 0) (\<lambda>_. 0) (\<lambda>_ _. 0))) = 256"
      "time_slice_remaining (process_table (boot_kernel (\<lambda>_. 0) (\<lambda>_. 0) (\<lambda>_ _. 0)) ! 0) = 0"
    by (simp_all add: boot_kernel_def zero_pcb_def)
  from two_ticks_two_running [OF this, of 0 0] show ?thesis by (simp add: Let_def)
qed

text \<open>\<^verbatim>\<open>scheduler_init\<close> always returns 1: it programs counter 0 of the timer as a rate generator with
  a divisor that gives the documented 100 Hz (between 100 and 101), makes \<^verbatim>\<open>scheduler_tick\<close> the
  handler of vector 32, and clears bit 0 of the mask it reads from the first controller.\<close>

lemma scheduler_init_timer:
  "\<exists>k' m lo hi. scheduler_init k = Some (1, k')
     \<and> port_out k' = port_out k @ [(0x43, 0x34), (0x40, lo), (0x40, hi), (0x21, m)]
     \<and> m = port_in k 0x21 (in_count k 0x21) AND NOT 1
     \<and> (let d = unat hi * 256 + unat lo in d * 100 \<le> 1193182 \<and> 1193182 < d * 101)
     \<and> interrupt_handlers k' = (interrupt_handlers k)[32 := Scheduler_tick]"
  by (simp add: scheduler_init_def idt_register_handler_def irq_enable_def irq_port_def inb_def outb_def
      PIT_PORT_CMD_def PIT_PORT_DATA_def PIT_DIVISOR_def PIT_FREQUENCY_def drop_bit_eq_div Let_def)

end
