(* ===== verification/Kbd.thy ===== *)
theory Kbd
  imports Idt
begin

text \<open>
  The keyboard driver, \<^verbatim>\<open>src/kernel/drivers/kbd.c\<close>: an interrupt handler that translates
  scancodes and puts characters into a ring of 256 cells, and the functions that read the ring.
  The ring satisfies the contract \<open>bounded_queue\<close> with room for 255 characters, and the
  driver as a whole delivers what a pure translation of the scancodes gives, in order.
\<close>

section \<open>The code\<close>

definition KBD_BUFFER_SIZE :: nat where "KBD_BUFFER_SIZE = 256"

definition scancode_table :: "u8 list" where
  "scancode_table =
     [0, 27, 49, 50, 51, 52, 53, 54, 55, 56, 57, 48, 45, 61, 8, 9,
      113, 119, 101, 114, 116, 121, 117, 105, 111, 112, 91, 93, 10, 0, 97, 115,
      100, 102, 103, 104, 106, 107, 108, 59, 39, 96, 0, 92, 122, 120, 99, 118,
      98, 110, 109, 44, 46, 47, 0, 42, 0, 32, 0, 0, 0, 0, 0, 0,
      0, 0, 0, 0, 0, 0, 0, 55, 56, 57, 45, 52, 53, 54, 43, 49,
      50, 51, 48, 46, 0, 0, 0, 0, 0, 0, 0, 0, 0, 0, 0, 0,
      0, 0, 0, 0, 0, 0, 0, 0, 0, 0, 0, 0, 0, 0, 0, 0,
      0, 0, 0, 0, 0, 0, 0, 0, 0, 0, 0, 0, 0, 0, 0, 0]"

definition kbd_handle_special_key :: "u8 \<Rightarrow> kernel \<Rightarrow> kernel" where
  "kbd_handle_special_key scancode k =
     (let s = kbd_state k;
          s = (if scancode = 0x2A \<or> scancode = 0x36 then s\<lparr>shift_pressed := 1\<rparr> else s);
          s = (if scancode = 0x1D then s\<lparr>ctrl_pressed := 1\<rparr> else s)
      in k\<lparr>kbd_state := s\<rparr>)"

text \<open>The end of the branch for a key press: a character enters the ring unless it is full.\<close>

definition kbd_enqueue :: "u8 \<Rightarrow> kernel \<Rightarrow> kernel" where
  "kbd_enqueue ch k =
     (let s = kbd_state k;
          nxt = of_nat ((unat (kbd_tail s) + 1) mod KBD_BUFFER_SIZE)
      in if nxt \<noteq> kbd_head s
         then k\<lparr>kbd_state := s\<lparr>kbd_buffer := (kbd_buffer s)[unat (kbd_tail s) := ch], kbd_tail := nxt\<rparr>\<rparr>
         else k)"

definition kbd_interrupt_handler :: "kernel \<Rightarrow> kernel" where
  "kbd_interrupt_handler k =
     (let (scancode, k) = inb 0x60 k;
          k = (if scancode AND 0x80 \<noteq> 0
               then let scancode = scancode AND 0x7F;
                        s = kbd_state k;
                        s = (if scancode = 0x2A \<or> scancode = 0x36 then s\<lparr>shift_pressed := 0\<rparr> else s);
                        s = (if scancode = 0x1D then s\<lparr>ctrl_pressed := 0\<rparr> else s)
                    in k\<lparr>kbd_state := s\<rparr>
               else let k = kbd_handle_special_key scancode k
                    in if unat scancode < 128 \<and> scancode_table ! unat scancode \<noteq> 0
                       then let ch = scancode_table ! unat scancode;
                                ch = (if shift_pressed (kbd_state k) \<noteq> 0
                                      then if ch \<ge> 97 \<and> ch \<le> 122 then ch - 97 + 65 else ch
                                      else ch)
                            in kbd_enqueue ch k
                       else k)
      in outb 0x20 0x20 k)"

definition kbd_init :: "kernel \<Rightarrow> (int \<times> kernel) option" where
  "kbd_init k =
     (let k = k\<lparr>kbd_state := (kbd_state k)\<lparr>kbd_head := 0, kbd_tail := 0, shift_pressed := 0, ctrl_pressed := 0\<rparr>\<rparr>;
          k = snd (idt_register_handler 33 Kbd_interrupt_handler k)
      in case irq_enable 1 k of None \<Rightarrow> None | Some k \<Rightarrow> Some (1, k))"

definition kbd_getchar :: "kernel \<Rightarrow> u8 \<times> kernel" where
  "kbd_getchar k =
     (let s = kbd_state k
      in if kbd_head s = kbd_tail s then (0, k)
         else (kbd_buffer s ! unat (kbd_head s),
               k\<lparr>kbd_state := s\<lparr>kbd_head := of_nat ((unat (kbd_head s) + 1) mod KBD_BUFFER_SIZE)\<rparr>\<rparr>))"

definition kbd_char_available :: "kernel \<Rightarrow> bool" where
  "kbd_char_available k \<longleftrightarrow> kbd_head (kbd_state k) \<noteq> kbd_tail (kbd_state k)"

section \<open>The contract of a bounded queue\<close>

text \<open>Taking \<open>n\<close> elements one after the other.\<close>

fun drain :: "('s \<Rightarrow> 'a \<times> 's) \<Rightarrow> nat \<Rightarrow> 's \<Rightarrow> 'a list \<times> 's" where
  "drain deq 0 s = ([], s)"
| "drain deq (Suc n) s = (let (x, s1) = deq s; (xs, s2) = drain deq n s1 in (x # xs, s2))"

lemma take_take_snoc:
  "length xs \<le> n \<Longrightarrow> take n (take n (xs @ [c]) @ ys) = take n (xs @ c # ys)"
  by (cases "length xs < n") auto

locale bounded_queue =
  fixes enq :: "'a \<Rightarrow> 's \<Rightarrow> 's"
    and deq :: "'s \<Rightarrow> 'a \<times> 's"
    and items :: "'s \<Rightarrow> 'a list"
    and ok :: "'s \<Rightarrow> bool"
    and capacity :: nat
    and nothing :: 'a
  assumes items_bound: "ok s \<Longrightarrow> length (items s) \<le> capacity"
    and enq_ok: "ok s \<Longrightarrow> ok (enq x s)"
    and enq_items: "ok s \<Longrightarrow> items (enq x s) = take capacity (items s @ [x])"
    and deq_empty: "ok s \<Longrightarrow> items s = [] \<Longrightarrow> deq s = (nothing, s)"
    and deq_first: "ok s \<Longrightarrow> items s = x # xs \<Longrightarrow> fst (deq s) = x"
    and deq_items: "ok s \<Longrightarrow> items s = x # xs \<Longrightarrow> items (snd (deq s)) = xs"
    and deq_ok: "ok s \<Longrightarrow> ok (snd (deq s))"
begin

lemma enqs_items:
  assumes "ok s"
  shows "ok (fold enq xs s)" and "items (fold enq xs s) = take capacity (items s @ xs)"
  using assms
proof (induction xs arbitrary: s)
  case Nil
  {
    case 1
    then show ?case by simp
  next
    case 2
    then show ?case using items_bound by simp
  }
next
  case (Cons x xs)
  {
    case 1
    then show ?case using Cons enq_ok by simp
  next
    case 2
    note take_take_snoc [OF items_bound [OF 2], of x xs]
    then show ?case using Cons.IH(2) [OF enq_ok [OF 2]] enq_items [OF 2] by simp
  }
qed

lemma drain_items:
  assumes "ok s" and "n \<le> length (items s)"
  shows "fst (drain deq n s) = take n (items s) \<and> items (snd (drain deq n s)) = drop n (items s)
    \<and> ok (snd (drain deq n s))"
  using assms
proof (induction n arbitrary: s)
  case (Suc n)
  then obtain x xs where xs: "items s = x # xs" by (cases "items s") auto
  have "fst (deq s) = x" "items (snd (deq s)) = xs" "ok (snd (deq s))"
    using deq_first deq_items deq_ok Suc.prems(1) xs by auto
  then show ?case using Suc.IH [of "snd (deq s)"] Suc.prems(2) xs by (simp add: case_prod_unfold Let_def)
qed simp

text \<open>First in, first out: what is put in comes out again in the same order.\<close>

lemma fifo:
  assumes "ok s" and "items s = []" and "length xs \<le> capacity"
  shows "fst (drain deq (length xs) (fold enq xs s)) = xs"
  using drain_items [OF enqs_items(1) [OF assms(1)], of "length xs" xs] enqs_items(2) [OF assms(1), of xs] assms
  by simp

end

section \<open>The ring is a bounded queue\<close>

definition kbd_ok :: "kernel \<Rightarrow> bool" where
  "kbd_ok k \<longleftrightarrow> length (kbd_buffer (kbd_state k)) = 256
     \<and> unat (kbd_head (kbd_state k)) < 256 \<and> unat (kbd_tail (kbd_state k)) < 256"

text \<open>The number of characters in the ring and the characters themselves, oldest first.\<close>

definition ring_count :: "nat \<Rightarrow> nat \<Rightarrow> nat" where
  "ring_count h t = (t + 256 - h) mod 256"

definition ring_items :: "u8 list \<Rightarrow> nat \<Rightarrow> nat \<Rightarrow> u8 list" where
  "ring_items b h t = map (\<lambda>i. b ! ((h + i) mod 256)) [0..<ring_count h t]"

definition kbd_items :: "kernel \<Rightarrow> u8 list" where
  "kbd_items k = ring_items (kbd_buffer (kbd_state k))
     (unat (kbd_head (kbd_state k))) (unat (kbd_tail (kbd_state k)))"

lemma ring_count_less: "ring_count h t < 256"
  by (simp add: ring_count_def)

lemma mod_ring: "n < 512 \<Longrightarrow> n mod 256 = (if n < 256 then n else n - 256 :: nat)"
  by (simp add: le_mod_geq not_less)

lemma ring_count_if:
  "h < 256 \<Longrightarrow> t < 256 \<Longrightarrow> ring_count h t = (if h \<le> t then t - h else t + 256 - h)"
  by (auto simp: ring_count_def mod_ring)

lemma ring_count_zero: "h < 256 \<Longrightarrow> t < 256 \<Longrightarrow> ring_count h t = 0 \<longleftrightarrow> h = t"
  by (auto simp: ring_count_if)

lemma ring_count_enq:
  "h < 256 \<Longrightarrow> t < 256 \<Longrightarrow> (t + 1) mod 256 \<noteq> h \<Longrightarrow> ring_count h ((t + 1) mod 256) = Suc (ring_count h t)"
  by (auto simp: ring_count_if mod_ring split: if_splits)

lemma ring_count_full:
  "h < 256 \<Longrightarrow> t < 256 \<Longrightarrow> (t + 1) mod 256 = h \<longleftrightarrow> ring_count h t = 255"
  by (auto simp: ring_count_if mod_ring split: if_splits)

lemma ring_count_deq:
  "h < 256 \<Longrightarrow> t < 256 \<Longrightarrow> h \<noteq> t \<Longrightarrow> ring_count h t = Suc (ring_count ((h + 1) mod 256) t)"
  by (auto simp: ring_count_if mod_ring split: if_splits)

lemma ring_last: "h < 256 \<Longrightarrow> t < 256 \<Longrightarrow> (h + ring_count h t) mod 256 = t"
  by (auto simp: ring_count_if mod_ring split: if_splits)

lemma ring_before:
  "h < 256 \<Longrightarrow> t < 256 \<Longrightarrow> i < ring_count h t \<Longrightarrow> (h + i) mod 256 \<noteq> t"
  by (auto simp: ring_count_if mod_ring split: if_splits)

lemma ring_items_enq:
  assumes "length b = 256" "h < 256" "t < 256" "(t + 1) mod 256 \<noteq> h"
  shows "ring_items (b[t := x]) h ((t + 1) mod 256) = ring_items b h t @ [x]"
proof -
  have "b[t := x] ! ((h + i) mod 256) = b ! ((h + i) mod 256)" if "i < ring_count h t" for i
    using ring_before [OF assms(2,3) that] by simp
  then show ?thesis
    using ring_last [OF assms(2,3)] assms(1,3)
    unfolding ring_items_def ring_count_enq [OF assms(2-4)] by (simp add: map_eq_conv)
qed

lemma ring_items_deq:
  assumes "h < 256" "t < 256" "h \<noteq> t"
  shows "ring_items b h t = b ! h # ring_items b ((h + 1) mod 256) t"
proof -
  have "[0..<Suc n] = 0 # map Suc [0..<n]" for n by (simp add: map_Suc_upt upt_conv_Cons)
  then show ?thesis
    using assms(1) unfolding ring_items_def ring_count_deq [OF assms]
    by (simp add: mod_simps comp_def del: upt_Suc)
qed

lemma unat_ring_index: "unat (of_nat (n mod 256) :: u16) = n mod 256"
proof -
  have "n mod 256 < 65536" by (rule less_trans [of _ 256]) simp_all
  then show ?thesis by (simp add: unat_of_nat)
qed

lemma kbd_enqueue_items:
  assumes "kbd_ok k"
  shows "kbd_ok (kbd_enqueue x k)" and "kbd_items (kbd_enqueue x k) = take 255 (kbd_items k @ [x])"
proof -
  let ?h = "unat (kbd_head (kbd_state k))" and ?t = "unat (kbd_tail (kbd_state k))"
  have b: "length (kbd_buffer (kbd_state k)) = 256" "?h < 256" "?t < 256" using assms by (auto simp: kbd_ok_def)
  have eq: "of_nat ((?t + 1) mod 256) = kbd_head (kbd_state k) \<longleftrightarrow> (?t + 1) mod 256 = ?h"
    by (metis unat_ring_index of_nat_unat ucast_id)
  have l: "length (kbd_items k) = ring_count ?h ?t" by (simp add: kbd_items_def ring_items_def)
  show "kbd_ok (kbd_enqueue x k)"
    using assms by (simp add: kbd_ok_def kbd_enqueue_def KBD_BUFFER_SIZE_def unat_ring_index Let_def)
  show "kbd_items (kbd_enqueue x k) = take 255 (kbd_items k @ [x])"
  proof (cases "(?t + 1) mod 256 = ?h")
    case True
    then have "length (kbd_items k) = 255" using ring_count_full [OF b(2,3)] l by simp
    then show ?thesis using True eq by (simp add: kbd_enqueue_def KBD_BUFFER_SIZE_def Let_def)
  next
    case False
    then have "length (kbd_items k) < 255"
      using ring_count_full [OF b(2,3)] ring_count_less [of ?h ?t] l by simp
    moreover have "kbd_items (kbd_enqueue x k) = kbd_items k @ [x]"
      using False eq ring_items_enq [OF b False, of x]
      by (simp add: kbd_enqueue_def KBD_BUFFER_SIZE_def kbd_items_def unat_ring_index Let_def)
    ultimately show ?thesis by simp
  qed
qed

lemma kbd_items_empty:
  assumes "kbd_ok k"
  shows "kbd_items k = [] \<longleftrightarrow> kbd_head (kbd_state k) = kbd_tail (kbd_state k)"
  using assms ring_count_zero [of "unat (kbd_head (kbd_state k))" "unat (kbd_tail (kbd_state k))"]
  by (simp add: kbd_ok_def kbd_items_def ring_items_def word_unat_eq_iff)

lemma kbd_getchar_items:
  assumes "kbd_ok k" and "kbd_items k = x # xs"
  shows "fst (kbd_getchar k) = x" and "kbd_items (snd (kbd_getchar k)) = xs"
proof -
  let ?h = "unat (kbd_head (kbd_state k))" and ?t = "unat (kbd_tail (kbd_state k))"
  have b: "?h < 256" "?t < 256" using assms(1) by (auto simp: kbd_ok_def)
  have ne: "kbd_head (kbd_state k) \<noteq> kbd_tail (kbd_state k)" using assms kbd_items_empty [OF assms(1)] by simp
  then have "?h \<noteq> ?t" by (simp add: word_unat_eq_iff)
  note r = ring_items_deq [OF b this, of "kbd_buffer (kbd_state k)"]
  show "fst (kbd_getchar k) = x" "kbd_items (snd (kbd_getchar k)) = xs"
    using r ne assms(2)
    by (simp_all add: kbd_getchar_def kbd_items_def KBD_BUFFER_SIZE_def unat_ring_index Let_def)
qed

lemma kbd_getchar_ok: "kbd_ok k \<Longrightarrow> kbd_ok (snd (kbd_getchar k))"
  by (simp add: kbd_getchar_def kbd_ok_def KBD_BUFFER_SIZE_def unat_ring_index Let_def)

interpretation ring: bounded_queue kbd_enqueue kbd_getchar kbd_items kbd_ok 255 0
proof
  fix k assume "kbd_ok k"
  show "length (kbd_items k) \<le> 255"
    using ring_count_less [of "unat (kbd_head (kbd_state k))" "unat (kbd_tail (kbd_state k))"]
    by (simp add: kbd_items_def ring_items_def)
next
  fix k assume "kbd_ok k" "kbd_items k = []"
  then show "kbd_getchar k = (0, k)" by (simp add: kbd_items_empty kbd_getchar_def)
qed (auto simp: kbd_enqueue_items kbd_getchar_items kbd_getchar_ok)

section \<open>Scancodes to characters\<close>

text \<open>What a scancode means, given whether shift is held: the new shift state and the character,
  if it is one.\<close>

definition key_step :: "bool \<Rightarrow> u8 \<Rightarrow> bool \<times> u8 option" where
  "key_step shift sc =
     (if sc < 0x80
      then if sc = 0x2A \<or> sc = 0x36 then (True, None)
           else let c = scancode_table ! unat sc
                in (shift, if c = 0 then None else Some (if shift \<and> c \<ge> 97 \<and> c \<le> 122 then c - 32 else c))
      else (shift \<and> \<not> (sc = 0xAA \<or> sc = 0xB6), None))"

fun typed :: "bool \<Rightarrow> u8 list \<Rightarrow> u8 list" where
  "typed shift [] = []"
| "typed shift (sc # scs) =
     (let (shift', c) = key_step shift sc
      in (case c of None \<Rightarrow> [] | Some x \<Rightarrow> [x]) @ typed shift' scs)"

lemma release_bit: "(sc :: u8) AND 0x80 \<noteq> 0 \<longleftrightarrow> \<not> sc < 0x80"
proof -
  have "(0x80 :: u8) = 2 ^ 7" by simp
  then have "sc AND 0x80 \<noteq> 0 \<longleftrightarrow> bit sc 7" by (simp only: and_exp_eq_0_iff_not_bit not_not)
  then show ?thesis using sign_bit_u8 [of sc] by simp
qed

lemma release_code:
  assumes "\<not> (sc :: u8) < 0x80"
  shows "sc AND 0x7F = sc - 0x80"
proof -
  have m: "(0x7F :: u8) = mask 7" by (simp add: mask_eq_exp_minus_1)
  have "sc AND 0x7F = take_bit 7 sc" unfolding m by (simp only: take_bit_eq_mask)
  then have "unat (sc AND 0x7F) = unat sc mod 128" by (simp add: take_bit_eq_mod unat_mod)
  moreover have "128 \<le> unat sc" "unat sc < 256"
    using assms unsigned_less [of sc, where ?'a = nat] by (simp_all add: word_less_nat_alt)
  ultimately have "unat (sc AND 0x7F) = unat (sc - 0x80)"
    by (simp add: unat_sub_if_size size_word_def le_mod_geq)
  then show ?thesis by (simp add: word_unat_eq_iff)
qed

lemma release_codes:
  assumes "\<not> (sc :: u8) < 0x80"
  shows "sc AND 0x7F = 0x2A \<longleftrightarrow> sc = 0xAA" and "sc AND 0x7F = 0x36 \<longleftrightarrow> sc = 0xB6"
  unfolding release_code [OF assms] by (auto simp: diff_eq_eq)

lemma kbd_ok_modifiers [simp]:
  "kbd_ok (k\<lparr>kbd_state := (kbd_state k)\<lparr>shift_pressed := a\<rparr>\<rparr>) = kbd_ok k"
  "kbd_ok (k\<lparr>kbd_state := (kbd_state k)\<lparr>ctrl_pressed := a\<rparr>\<rparr>) = kbd_ok k"
  "kbd_ok (k\<lparr>port_out := l\<rparr>) = kbd_ok k" "kbd_ok (k\<lparr>in_count := n\<rparr>) = kbd_ok k"
  by (simp_all add: kbd_ok_def)

text \<open>The state a key leaves, apart from the ring.\<close>

lemma kbd_enqueue_rest:
  "shift_pressed (kbd_state (kbd_enqueue x k)) = shift_pressed (kbd_state k)"
  "port_in (kbd_enqueue x k) = port_in k" "in_count (kbd_enqueue x k) = in_count k"
  by (simp_all add: kbd_enqueue_def Let_def)

lemma kbd_handler_step:
  assumes "kbd_ok k"
  defines "sc \<equiv> port_in k 0x60 (in_count k 0x60)" and "k' \<equiv> kbd_interrupt_handler k"
  defines "shift \<equiv> shift_pressed (kbd_state k) \<noteq> 0"
  shows "kbd_ok k' \<and> port_in k' = port_in k \<and> in_count k' 0x60 = Suc (in_count k 0x60)
    \<and> (shift_pressed (kbd_state k') \<noteq> 0) = fst (key_step shift sc)
    \<and> kbd_items k' = (case snd (key_step shift sc) of None \<Rightarrow> kbd_items k
                       | Some c \<Rightarrow> take 255 (kbd_items k @ [c]))"
proof -
  define k1 where "k1 = k\<lparr>in_count := (in_count k)(0x60 := Suc (in_count k 0x60))\<rparr>"
  have k1: "kbd_ok k1" "kbd_items k1 = kbd_items k" "kbd_state k1 = kbd_state k" "port_in k1 = port_in k"
      "in_count k1 0x60 = Suc (in_count k 0x60)"
    using assms(1) by (simp_all add: k1_def kbd_items_def)
  show ?thesis
  proof (cases "sc < 0x80")
    case False
    then have n: "sc AND 0x80 \<noteq> 0" using release_bit by blast
    show ?thesis
      using False k1(1) release_codes [OF False]
      by (simp add: k'_def kbd_interrupt_handler_def inb_def sc_def [symmetric] k1_def [symmetric] n Let_def
          outb_def key_step_def shift_def)
         (auto simp: kbd_ok_def kbd_items_def k1(2-5))
  next
    case True
    then have n: "sc AND 0x80 = 0" using release_bit by blast
    have u: "unat sc < 128" using True by (simp add: word_less_nat_alt)
    let ?k2 = "kbd_handle_special_key sc k1"
    have k2: "kbd_ok ?k2" "kbd_items ?k2 = kbd_items k" "port_in ?k2 = port_in k"
        "in_count ?k2 0x60 = Suc (in_count k 0x60)"
      using k1 by (auto simp: kbd_handle_special_key_def kbd_ok_def kbd_items_def Let_def)
    have s2: "shift_pressed (kbd_state ?k2) \<noteq> 0 \<longleftrightarrow> shift \<or> sc = 0x2A \<or> sc = 0x36"
      using k1(3) by (simp add: kbd_handle_special_key_def shift_def Let_def)
    have z: "sc = 0x2A \<or> sc = 0x36 \<Longrightarrow> scancode_table ! unat sc = 0" by (auto simp: scancode_table_def)
    show ?thesis
      using True u z s2 k2 kbd_enqueue_items [OF k2(1)]
      by (simp add: k'_def kbd_interrupt_handler_def inb_def sc_def [symmetric] k1_def [symmetric] n Let_def
          outb_def key_step_def kbd_enqueue_rest)
         (auto simp: kbd_items_def kbd_ok_def)
  qed
qed

section \<open>Properties\<close>

lemma kbd_handler_ok: "kbd_ok k \<Longrightarrow> kbd_ok (kbd_interrupt_handler k)"
  using kbd_handler_step by blast

lemma kbd_handlers_items:
  assumes "kbd_ok k" and "\<forall>i<length scs. port_in k 0x60 (in_count k 0x60 + i) = scs ! i"
  shows "kbd_ok ((kbd_interrupt_handler ^^ length scs) k)
    \<and> kbd_items ((kbd_interrupt_handler ^^ length scs) k)
      = take 255 (kbd_items k @ typed (shift_pressed (kbd_state k) \<noteq> 0) scs)"
  using assms
proof (induction scs arbitrary: k)
  case Nil
  then show ?case using ring.items_bound [of k] by simp
next
  case (Cons sc scs)
  let ?k = "kbd_interrupt_handler k"
  have sc: "port_in k 0x60 (in_count k 0x60) = sc" using Cons.prems(2) by force
  note st = kbd_handler_step [OF Cons.prems(1), unfolded sc]
  have "\<forall>i<length scs. port_in ?k 0x60 (in_count ?k 0x60 + i) = scs ! i"
    using Cons.prems(2) st by force
  then have ih: "kbd_ok ((kbd_interrupt_handler ^^ length scs) ?k)"
      "kbd_items ((kbd_interrupt_handler ^^ length scs) ?k)
        = take 255 (kbd_items ?k @ typed (shift_pressed (kbd_state ?k) \<noteq> 0) scs)"
    using Cons.IH [of ?k] st by auto
  have "take 255 (kbd_items ?k @ typed (shift_pressed (kbd_state ?k) \<noteq> 0) scs)
      = take 255 (kbd_items k @ typed (shift_pressed (kbd_state k) \<noteq> 0) (sc # scs))"
    using st take_take_snoc [OF ring.items_bound [OF Cons.prems(1)]]
    by (cases "snd (key_step (shift_pressed (kbd_state k) \<noteq> 0) sc)")
       (simp_all add: case_prod_unfold Let_def del: take_append)
  then show ?case using ih by (simp only: length_Cons funpow_Suc_right comp_apply)
qed

text \<open>The handler touches the ring, the count of port reads and the port output only.\<close>

lemma kbd_handler_frame [simp]:
  "mem (kbd_interrupt_handler k) = mem k"
  "port_in (kbd_interrupt_handler k) = port_in k"
  "int_flag (kbd_interrupt_handler k) = int_flag k"
  "cr0 (kbd_interrupt_handler k) = cr0 k"
  "cr3 (kbd_interrupt_handler k) = cr3 k"
  "invlpg_log (kbd_interrupt_handler k) = invlpg_log k"
  "gdtr (kbd_interrupt_handler k) = gdtr k"
  "idtr (kbd_interrupt_handler k) = idtr k"
  "seg_cs (kbd_interrupt_handler k) = seg_cs k"
  "seg_data (kbd_interrupt_handler k) = seg_data k"
  "gdt (kbd_interrupt_handler k) = gdt k"
  "gdt_ptr (kbd_interrupt_handler k) = gdt_ptr k"
  "idt (kbd_interrupt_handler k) = idt k"
  "idt_ptr (kbd_interrupt_handler k) = idt_ptr k"
  "interrupt_handlers (kbd_interrupt_handler k) = interrupt_handlers k"
  "vga_state (kbd_interrupt_handler k) = vga_state k"
  "pmm_state (kbd_interrupt_handler k) = pmm_state k"
  "heap_state (kbd_interrupt_handler k) = heap_state k"
  "process_table (kbd_interrupt_handler k) = process_table k"
  "current_pid (kbd_interrupt_handler k) = current_pid k"
  "current_process (kbd_interrupt_handler k) = current_process k"
  "next_pid (kbd_interrupt_handler k) = next_pid k"
  "scheduler_ticks (kbd_interrupt_handler k) = scheduler_ticks k"
  by (simp_all add: kbd_interrupt_handler_def kbd_enqueue_def kbd_handle_special_key_def inb_def outb_def Let_def)

lemma kbd_handlers_frame [simp]:
  "mem ((kbd_interrupt_handler ^^ n) k) = mem k"
  "port_in ((kbd_interrupt_handler ^^ n) k) = port_in k"
  "int_flag ((kbd_interrupt_handler ^^ n) k) = int_flag k"
  "cr0 ((kbd_interrupt_handler ^^ n) k) = cr0 k"
  "cr3 ((kbd_interrupt_handler ^^ n) k) = cr3 k"
  "invlpg_log ((kbd_interrupt_handler ^^ n) k) = invlpg_log k"
  "gdtr ((kbd_interrupt_handler ^^ n) k) = gdtr k"
  "idtr ((kbd_interrupt_handler ^^ n) k) = idtr k"
  "seg_cs ((kbd_interrupt_handler ^^ n) k) = seg_cs k"
  "seg_data ((kbd_interrupt_handler ^^ n) k) = seg_data k"
  "gdt ((kbd_interrupt_handler ^^ n) k) = gdt k"
  "gdt_ptr ((kbd_interrupt_handler ^^ n) k) = gdt_ptr k"
  "idt ((kbd_interrupt_handler ^^ n) k) = idt k"
  "idt_ptr ((kbd_interrupt_handler ^^ n) k) = idt_ptr k"
  "interrupt_handlers ((kbd_interrupt_handler ^^ n) k) = interrupt_handlers k"
  "vga_state ((kbd_interrupt_handler ^^ n) k) = vga_state k"
  "pmm_state ((kbd_interrupt_handler ^^ n) k) = pmm_state k"
  "heap_state ((kbd_interrupt_handler ^^ n) k) = heap_state k"
  "process_table ((kbd_interrupt_handler ^^ n) k) = process_table k"
  "current_pid ((kbd_interrupt_handler ^^ n) k) = current_pid k"
  "current_process ((kbd_interrupt_handler ^^ n) k) = current_process k"
  "next_pid ((kbd_interrupt_handler ^^ n) k) = next_pid k"
  "scheduler_ticks ((kbd_interrupt_handler ^^ n) k) = scheduler_ticks k"
  by (induction n) simp_all

text \<open>C8: what is typed is what is read. When the keyboard delivers a sequence of scancodes, one per
  interrupt, the ring holds afterwards what it held before followed by the characters the
  scancodes stand for (upper case while shift is held), up to its 255 places; later characters
  are dropped, none is overwritten. \<^verbatim>\<open>kbd_getchar\<close> then returns them one by one in that order.\<close>

theorem kbd_delivers_typed:
  assumes "kbd_ok k" and "\<forall>i<length scs. port_in k 0x60 (in_count k 0x60 + i) = scs ! i"
  shows "let k' = (kbd_interrupt_handler ^^ length scs) k
    in kbd_ok k'
       \<and> kbd_items k' = take 255 (kbd_items k @ typed (shift_pressed (kbd_state k) \<noteq> 0) scs)
       \<and> fst (drain kbd_getchar (length (kbd_items k')) k') = kbd_items k'"
proof -
  have "fst (drain kbd_getchar (length (kbd_items s)) s) = kbd_items s" if "kbd_ok s" for s
    using ring.drain_items [OF that] by simp
  with kbd_handlers_items [OF assms] show ?thesis unfolding Let_def by blast
qed

text \<open>Shift pressed, a, shift released, a, Enter: the scancodes of "Aa" and a newline.\<close>

theorem kbd_delivers_typed_witness:
  "kbd_items ((kbd_interrupt_handler ^^ 5) (boot_kernel (\<lambda>_. 0) (\<lambda>_. 0)
      (\<lambda>_ i. [0x2A, 0x1E, 0xAA, 0x1E, 0x1C, 0] ! min i 5))) = [65, 97, 10]"
proof -
  let ?k = "boot_kernel (\<lambda>_. 0) (\<lambda>_. 0) (\<lambda>_ i. [0x2A, 0x1E, 0xAA, 0x1E, 0x1C, 0] ! min i 5)"
  have "kbd_ok ?k" by (simp add: kbd_ok_def boot_kernel_def)
  moreover have "\<forall>i<length [0x2A, 0x1E, 0xAA, 0x1E, 0x1C :: u8]. port_in ?k 0x60 (in_count ?k 0x60 + i)
      = [0x2A, 0x1E, 0xAA, 0x1E, 0x1C] ! i"
    by (auto simp: boot_kernel_def less_Suc_eq)
  moreover have "kbd_items ?k = []" "shift_pressed (kbd_state ?k) = 0"
    by (simp_all add: boot_kernel_def kbd_items_def ring_items_def ring_count_def)
  moreover have "typed False [0x2A, 0x1E, 0xAA, 0x1E, 0x1C] = [65, 97, 10]"
    by (simp add: key_step_def scancode_table_def)
  ultimately have "kbd_items ((kbd_interrupt_handler ^^ length [0x2A, 0x1E, 0xAA, 0x1E, 0x1C :: u8]) ?k) = [65, 97, 10]"
    using kbd_delivers_typed [of ?k "[0x2A, 0x1E, 0xAA, 0x1E, 0x1C]"] by (simp add: Let_def)
  moreover have "length [0x2A, 0x1E, 0xAA, 0x1E, 0x1C :: u8] = 5" by simp
  ultimately show ?thesis by (simp only:)
qed

text \<open>\<^verbatim>\<open>kbd_getchar\<close> does not wait: on an empty ring it returns 0 and changes nothing; otherwise it
  returns the oldest character and removes it. \<^verbatim>\<open>kbd_char_available\<close> says which of the two.\<close>

lemma kbd_getchar_is_dequeue:
  assumes "kbd_ok k"
  shows "kbd_char_available k = (kbd_items k \<noteq> [])
    \<and> (case kbd_items k of
         [] \<Rightarrow> kbd_getchar k = (0, k)
       | c # cs \<Rightarrow> fst (kbd_getchar k) = c \<and> kbd_items (snd (kbd_getchar k)) = cs)
    \<and> kbd_ok (snd (kbd_getchar k))"
  using ring.deq_empty [OF assms] kbd_getchar_items [OF assms] kbd_items_empty [OF assms]
    kbd_getchar_ok [OF assms]
  by (auto simp: kbd_char_available_def split: list.split)

lemma kbd_getchar_is_dequeue_witness:
  "fst (kbd_getchar (kbd_enqueue 113 (boot_kernel (\<lambda>_. 0) (\<lambda>_. 0) (\<lambda>_ _. 0)))) = 113"
proof -
  let ?k = "boot_kernel (\<lambda>_. 0) (\<lambda>_. 0) (\<lambda>_ _. 0)"
  have ok: "kbd_ok ?k" by (simp add: kbd_ok_def boot_kernel_def)
  have "kbd_items ?k = []" by (simp add: boot_kernel_def kbd_items_def ring_items_def ring_count_def)
  then have "kbd_items (kbd_enqueue 113 ?k) = [113]" using kbd_enqueue_items(2) [OF ok] by simp
  then show ?thesis using kbd_getchar_is_dequeue [OF kbd_enqueue_items(1) [OF ok], of 113] by simp
qed

end
