(* ===== verification/Kbd_Stream.thy ===== *)
theory Kbd_Stream
  imports Kbd
begin

text \<open>
  The ring between its two users. \<^verbatim>\<open>kbd_getchar\<close> runs with interrupts enabled, the handler may come in
  between any two of its accesses to \<^verbatim>\<open>kbd_state\<close>, and the driver has no lock. Here \<^verbatim>\<open>kbd_getchar\<close> is taken
  apart into its accesses and shown to behave as if it were one step: the model of the other theories,
  in which interrupts come between calls only, loses no behaviour of the reader.
\<close>

section \<open>The code, access by access\<close>

text \<open>The number of keyboard interrupts that come in before each access: the load of \<^verbatim>\<open>head\<close> and the load of
  \<^verbatim>\<open>tail\<close> for the comparison, the load of the character, the load of \<^verbatim>\<open>head\<close> that is incremented, and its
  store. A character array and two 16 bit words are loaded and stored by single instructions.\<close>

record arrivals =
  at_head :: nat
  at_tail :: nat
  at_char :: nat
  at_next :: nat
  at_store :: nat

abbreviation key_interrupts :: "nat \<Rightarrow> kernel \<Rightarrow> kernel" where
  "key_interrupts n \<equiv> kbd_interrupt_handler ^^ n"

definition kbd_getchar_interrupted :: "arrivals \<Rightarrow> kernel \<Rightarrow> u8 \<times> kernel" where
  "kbd_getchar_interrupted a k =
     (let k = key_interrupts (at_head a) k;
          head = kbd_head (kbd_state k);
          k = key_interrupts (at_tail a) k;
          tail = kbd_tail (kbd_state k)
      in if head = tail then (0, k)
         else let k = key_interrupts (at_char a) k;
                  ch = kbd_buffer (kbd_state k) ! unat (kbd_head (kbd_state k));
                  k = key_interrupts (at_next a) k;
                  nxt = of_nat ((unat (kbd_head (kbd_state k)) + 1) mod KBD_BUFFER_SIZE);
                  k = key_interrupts (at_store a) k
              in (ch, k\<lparr>kbd_state := (kbd_state k)\<lparr>kbd_head := nxt\<rparr>\<rparr>))"

definition arrivals_before :: "arrivals \<Rightarrow> nat" where
  "arrivals_before a = at_head a + at_tail a"

definition arrivals_all :: "arrivals \<Rightarrow> nat" where
  "arrivals_all a = at_head a + at_tail a + at_char a + at_next a + at_store a"



section \<open>What the handler leaves to the reader\<close>

lemma kbd_handler_head [simp]:
  "kbd_head (kbd_state (kbd_interrupt_handler k)) = kbd_head (kbd_state k)"
  by (simp add: kbd_interrupt_handler_def kbd_enqueue_def kbd_handle_special_key_def inb_def outb_def Let_def)

lemma key_interrupts_head [simp]:
  "kbd_head (kbd_state (key_interrupts n k)) = kbd_head (kbd_state k)"
  by (induction n) simp_all

lemma key_interrupts_ok: "kbd_ok k \<Longrightarrow> kbd_ok (key_interrupts n k)"
  by (induction n) (simp_all add: kbd_handler_ok)

lemma kbd_handler_first:
  assumes "kbd_ok k" and "kbd_items k = x # xs"
  shows "\<exists>ys. kbd_items (kbd_interrupt_handler k) = x # ys"
  using kbd_handler_step [OF assms(1)] assms(2) by (auto split: option.splits)

lemma key_interrupts_first:
  assumes "kbd_ok k" and "kbd_items k = x # xs"
  shows "\<exists>ys. kbd_items (key_interrupts n k) = x # ys"
  by (induction n) (use assms kbd_handler_first key_interrupts_ok in \<open>fastforce+\<close>)

text \<open>The cell at \<^verbatim>\<open>head\<close> is the oldest character, and stays it.\<close>

lemma ring_head_cell:
  assumes "kbd_ok k" and "kbd_items k = x # xs"
  shows "kbd_buffer (kbd_state k) ! unat (kbd_head (kbd_state k)) = x"
  using kbd_getchar_items(1) [OF assms] kbd_items_empty [OF assms(1)] assms(2)
  by (simp add: kbd_getchar_def Let_def)

lemma getchar_nonempty:
  assumes "kbd_ok k" and "kbd_items k = x # xs"
  shows "kbd_getchar k = (x, k\<lparr>kbd_state := (kbd_state k)\<lparr>
      kbd_head := of_nat ((unat (kbd_head (kbd_state k)) + 1) mod KBD_BUFFER_SIZE)\<rparr>\<rparr>)"
  using ring_head_cell [OF assms] kbd_items_empty [OF assms(1)] assms(2) by (simp add: kbd_getchar_def Let_def)

lemma key_interrupts_add: "key_interrupts n (key_interrupts m k) = key_interrupts (m + n) k"
  by (simp add: add.commute [of m n] funpow_add)

section \<open>The characters of a stretch of scancodes\<close>

definition shift_after :: "bool \<Rightarrow> u8 list \<Rightarrow> bool" where
  "shift_after shift scs = fold (\<lambda>sc s. fst (key_step s sc)) scs shift"

abbreviation shift_held :: "kernel \<Rightarrow> bool" where
  "shift_held k \<equiv> shift_pressed (kbd_state k) \<noteq> 0"

abbreviation scancodes :: "kernel \<Rightarrow> nat \<Rightarrow> nat \<Rightarrow> u8 list" where
  "scancodes k m n \<equiv> map (port_in k 0x60) [m..<n]"

lemma typed_append: "typed s (xs @ ys) = typed s xs @ typed (shift_after s xs) ys"
  by (induction xs arbitrary: s) (simp_all add: shift_after_def case_prod_unfold Let_def)

lemma typed_length: "length (typed s scs) \<le> length scs"
proof (induction scs arbitrary: s)
  case (Cons sc scs)
  show ?case using Cons [of "fst (key_step s sc)"] by (auto simp: case_prod_unfold Let_def split: option.split)
qed simp



lemma key_interrupts_shift:
  assumes "kbd_ok k"
  shows "in_count (key_interrupts n k) 0x60 = in_count k 0x60 + n
    \<and> shift_held (key_interrupts n k) = shift_after (shift_held k) (scancodes k (in_count k 0x60) (in_count k 0x60 + n))"
proof (induction n)
  case (Suc n)
  show ?case using Suc kbd_handler_step [OF key_interrupts_ok [OF assms], of n] by (simp add: shift_after_def)
qed (simp add: shift_after_def)

text \<open>The characters a reader has before it when the first \<open>E\<close> scancodes arrive, and the passage from one
  state to another in which some scancodes come in and the characters \<open>cs\<close> are handed out: none is lost.\<close>

definition key_stream :: "kernel \<Rightarrow> nat \<Rightarrow> u8 list" where
  "key_stream k E = kbd_items k @ typed (shift_held k) (scancodes k (in_count k 0x60) E)"

definition key_flow :: "kernel \<Rightarrow> u8 list \<Rightarrow> kernel \<Rightarrow> bool" where
  "key_flow k cs k' \<longleftrightarrow> kbd_ok k' \<and> port_in k' = port_in k \<and> in_count k 0x60 \<le> in_count k' 0x60
     \<and> shift_held k' = shift_after (shift_held k) (scancodes k (in_count k 0x60) (in_count k' 0x60))
     \<and> key_stream k (in_count k' 0x60) = cs @ kbd_items k'"

lemma key_flowD:
  assumes "key_flow k cs k'"
  shows "kbd_ok k'" and "port_in k' = port_in k" and "in_count k 0x60 \<le> in_count k' 0x60"
  using assms by (simp_all add: key_flow_def)

lemma scancodes_append: "m \<le> n \<Longrightarrow> n \<le> l \<Longrightarrow> scancodes k m l = scancodes k m n @ scancodes k n l"
  by (metis le_Suc_ex map_append upt_add_eq_append)


lemma key_stream_now [simp]: "key_stream k (in_count k 0x60) = kbd_items k"
  by (simp add: key_stream_def)

lemma key_stream_flow:
  assumes "key_flow k cs k'" and "in_count k' 0x60 \<le> E"
  shows "key_stream k E = cs @ key_stream k' E"
proof -
  have "key_stream k E = key_stream k (in_count k' 0x60) @ typed (shift_held k') (scancodes k (in_count k' 0x60) E)"
    using assms scancodes_append [of "in_count k 0x60" "in_count k' 0x60" E k]
    by (simp add: key_stream_def key_flow_def typed_append)
  then show ?thesis using assms(1) by (simp add: key_flow_def key_stream_def)
qed



text \<open>A flow between states with the same keyboard and the same ports.\<close>

lemma key_flow_cong:
  assumes "kbd_state q = kbd_state k'" and "port_in q = port_in k'" and "in_count q = in_count k'"
  shows "key_flow k cs q = key_flow k cs k'"
  using assms by (simp add: key_flow_def kbd_ok_def kbd_items_def)

lemma key_flow_interrupts:
  assumes "kbd_ok k" and "length (key_stream k (in_count k 0x60 + n)) \<le> 255"
  shows "key_flow k [] (key_interrupts n k)"
proof -
  let ?scs = "scancodes k (in_count k 0x60) (in_count k 0x60 + n)"
  have "\<forall>i<length ?scs. port_in k 0x60 (in_count k 0x60 + i) = ?scs ! i" by simp
  from kbd_handlers_items [OF assms(1) this] key_interrupts_shift [OF assms(1), of n] show ?thesis
    using assms(2) by (simp add: key_flow_def key_stream_def)
qed

lemma kbd_getchar_rest [simp]:
  "port_in (snd (kbd_getchar k)) = port_in k" "in_count (snd (kbd_getchar k)) = in_count k"
  "shift_pressed (kbd_state (snd (kbd_getchar k))) = shift_pressed (kbd_state k)"
  by (simp_all add: kbd_getchar_def Let_def)




text \<open>How far a reader that polls once per step is behind: an upper bound of what the ring holds before the
  \<open>n\<close>-th poll, if \<open>intr n\<close> interrupts come before it.\<close>

primrec backlog :: "nat \<Rightarrow> (nat \<Rightarrow> nat) \<Rightarrow> nat \<Rightarrow> nat" where
  "backlog b intr 0 = b"
| "backlog b intr (Suc n) = backlog b intr n + intr n - 1"

lemma backlog_one_key:
  assumes "\<forall>n. intr n \<le> 1"
  shows "backlog b intr n \<le> b"
proof (induction n)
  case (Suc n)
  then show ?case using assms [rule_format, of n] by simp
qed simp

lemma poll_interrupts:
  assumes "kbd_ok k" and "length (kbd_items k) \<le> b" and "b + m \<le> 255"
  shows "key_flow k [] (key_interrupts m k)" and "in_count (key_interrupts m k) 0x60 = in_count k 0x60 + m"
    and "length (kbd_items (key_interrupts m k)) \<le> b + m"
proof -
  have l: "length (key_stream k (in_count k 0x60 + m)) \<le> b + m"
    using assms(2) typed_length [of "shift_held k" "scancodes k (in_count k 0x60) (in_count k 0x60 + m)"]
    by (simp add: key_stream_def)
  show f: "key_flow k [] (key_interrupts m k)" using key_flow_interrupts [OF assms(1)] l assms(3) by simp
  show c: "in_count (key_interrupts m k) 0x60 = in_count k 0x60 + m" using key_interrupts_shift [OF assms(1)] by blast
  show "length (kbd_items (key_interrupts m k)) \<le> b + m" using f l unfolding key_flow_def c by simp
qed

text \<open>A schedule of interrupts that ends after the poll \<open>M\<close> and never lets the reader fall too far behind, and
  the state before the \<open>n\<close>-th poll in which \<open>cs\<close> is all that is still to be read of the first \<open>E\<close> scancodes.\<close>

definition schedule_ok :: "(nat \<Rightarrow> nat) \<Rightarrow> nat \<Rightarrow> nat \<Rightarrow> bool" where
  "schedule_ok intr M b \<longleftrightarrow> (\<forall>j>M. intr j = 0) \<and> (\<forall>m. backlog b intr m + intr m \<le> 255)"

definition keys_due :: "(nat \<Rightarrow> nat) \<Rightarrow> nat \<Rightarrow> nat \<Rightarrow> nat \<Rightarrow> nat \<Rightarrow> kernel \<Rightarrow> u8 list \<Rightarrow> bool" where
  "keys_due intr M b E n k cs \<longleftrightarrow> kbd_ok k \<and> E = in_count k 0x60 + (\<Sum>j=n..M. intr j)
     \<and> key_stream k E = cs \<and> length (kbd_items k) \<le> backlog b intr n"

lemma keys_due_cong:
  assumes "kbd_state q = kbd_state k" and "port_in q = port_in k" and "in_count q = in_count k"
  shows "keys_due intr M b E n q cs = keys_due intr M b E n k cs"
  using assms by (simp add: keys_due_def kbd_ok_def kbd_items_def key_stream_def)

text \<open>The interrupts of a poll change nothing in what is due; if the ring is still empty, keys are to come
  or none is due.\<close>

lemma keys_due_poll:
  assumes "schedule_ok intr M b" and "keys_due intr M b E n k cs"
  defines "k0 \<equiv> key_interrupts (intr n) k"
  shows "kbd_ok k0" and "E = in_count k0 0x60 + (\<Sum>j=Suc n..M. intr j)" and "key_stream k0 E = cs"
    and "length (kbd_items k0) \<le> Suc (backlog b intr (Suc n))"
    and "kbd_items k0 = [] \<Longrightarrow> keys_due intr M b E (Suc n) k0 cs"
    and "kbd_items k0 = [] \<Longrightarrow> cs \<noteq> [] \<Longrightarrow> n \<le> M"
proof -
  have due: "kbd_ok k" "length (kbd_items k) \<le> backlog b intr n" "E = in_count k 0x60 + (\<Sum>j=n..M. intr j)"
      "key_stream k E = cs"
    and s: "backlog b intr n + intr n \<le> 255" "\<forall>j>M. intr j = 0"
    using assms(1,2) unfolding keys_due_def schedule_ok_def by blast+
  note p = poll_interrupts [OF due(1,2) s(1), folded k0_def]
  show ok: "kbd_ok k0" by (rule key_flowD(1) [OF p(1)])
  have "(\<Sum>j=n..M. intr j) = intr n + (\<Sum>j=Suc n..M. intr j)"
    using s(2) by (cases "n \<le> M") (simp_all add: sum.atLeast_Suc_atMost)
  then show E: "E = in_count k0 0x60 + (\<Sum>j=Suc n..M. intr j)" using due(3) p(2) by simp
  show st: "key_stream k0 E = cs" using key_stream_flow [OF p(1)] E due(4) by simp
  show "length (kbd_items k0) \<le> Suc (backlog b intr (Suc n))" using p(3) by simp
  show "keys_due intr M b E (Suc n) k0 cs" if "kbd_items k0 = []"
    using ok E st that unfolding keys_due_def by simp
  show "n \<le> M" if "kbd_items k0 = []" "cs \<noteq> []"
  proof (rule ccontr)
    assume "\<not> n \<le> M"
    then have "key_stream k0 E = kbd_items k0" using E by simp
    then show False using st that by simp
  qed
qed

text \<open>Taking the oldest key.\<close>

lemma keys_due_next:
  assumes "schedule_ok intr M b" and "keys_due intr M b E n k (c # cs)"
    and "key_flow (key_interrupts (intr n) k) [c] q" and "in_count q = in_count (key_interrupts (intr n) k)"
  shows "keys_due intr M b E (Suc n) q cs"
proof -
  note p = keys_due_poll [OF assms(1,2)]
  have E: "E = in_count q 0x60 + (\<Sum>j=Suc n..M. intr j)" using p(2) assms(4) by simp
  have "key_stream q E = cs" using key_stream_flow [OF assms(3), of E] E p(3) by simp
  moreover have "kbd_items (key_interrupts (intr n) k) = c # kbd_items q"
    using assms(3,4) by (simp add: key_flow_def)
  then have "length (kbd_items q) \<le> backlog b intr (Suc n)" using p(4) by simp
  ultimately show ?thesis using E key_flowD(1) [OF assms(3)] unfolding keys_due_def by blast
qed

lemma keys_due_first:
  assumes "schedule_ok intr M b" and "keys_due intr M b E n k (c # cs)"
    and "kbd_items (key_interrupts (intr n) k) = x # xs"
  shows "x = c"
  using keys_due_poll(3) [OF assms(1,2)] assms(3) by (simp add: key_stream_def)

section \<open>Properties\<close>

lemma getchar_interrupted_eq:
  assumes "kbd_ok k"
  shows "kbd_getchar_interrupted a k = kbd_getchar (key_interrupts
    (if kbd_items (key_interrupts (arrivals_before a) k) = [] then arrivals_before a else arrivals_all a) k)"
proof -
  let ?k = "key_interrupts (arrivals_before a) k"
  have ok: "kbd_ok ?k" by (rule key_interrupts_ok [OF assms])
  have e: "kbd_items ?k = [] \<longleftrightarrow> kbd_head (kbd_state k) = kbd_tail (kbd_state ?k)"
    using kbd_items_empty [OF ok] by simp
  show ?thesis
  proof (cases "kbd_items ?k")
    case Nil
    then show ?thesis
      using e ring.deq_empty [OF ok Nil]
      by (simp add: kbd_getchar_interrupted_def key_interrupts_add arrivals_before_def Let_def)
  next
    case (Cons x xs)
    have ch: "kbd_buffer (kbd_state (key_interrupts n ?k)) ! unat (kbd_head (kbd_state k)) = x" for n
      using key_interrupts_first [OF ok Cons] ring_head_cell [OF key_interrupts_ok [OF ok]] by fastforce
    have ge: "kbd_getchar (key_interrupts n ?k) = (x, (key_interrupts n ?k)\<lparr>kbd_state := (kbd_state (key_interrupts n ?k))\<lparr>
        kbd_head := of_nat ((unat (kbd_head (kbd_state k)) + 1) mod KBD_BUFFER_SIZE)\<rparr>\<rparr>)" for n
      using key_interrupts_first [OF ok Cons] getchar_nonempty [OF key_interrupts_ok [OF ok]] by fastforce
    show ?thesis
      using e Cons ch [of "at_char a"] ge [of "at_char a + at_next a + at_store a"]
      by (simp add: kbd_getchar_interrupted_def key_interrupts_add arrivals_before_def arrivals_all_def Let_def add.assoc)
  qed
qed





text \<open>C28: \<^verbatim>\<open>kbd_getchar\<close> needs no lock. However many keyboard interrupts come in before each of its five
  accesses to the ring, the call returns the character and leaves the state of an uninterrupted call:
  if the ring is empty when \<^verbatim>\<open>tail\<close> is compared, of a call at that moment, otherwise of a call after all
  the interrupts. So no character is lost, returned twice or returned before it is written.\<close>

theorem kbd_getchar_atomic:
  assumes "kbd_ok k"
  shows "kbd_getchar_interrupted a k =
    (let before = key_interrupts (arrivals_before a) k
     in if kbd_char_available before then kbd_getchar (key_interrupts (arrivals_all a) k) else kbd_getchar before)"
  using getchar_interrupted_eq [OF assms, of a] kbd_getchar_is_dequeue [OF key_interrupts_ok [OF assms], of "arrivals_before a"]
  by (simp add: Let_def)

text \<open>The key q is in the ring; Enter arrives after the comparison, and again before the store.\<close>

theorem kbd_getchar_atomic_witness:
  "let k = key_interrupts 1 (boot_kernel (\<lambda>_. 0) (\<lambda>_. 0) (\<lambda>_ i. if i = 0 then 0x10 else 0x1C));
       a = \<lparr>at_head = 0, at_tail = 0, at_char = 1, at_next = 0, at_store = 1\<rparr>
   in kbd_getchar_interrupted a k = kbd_getchar (key_interrupts 2 k)
      \<and> fst (kbd_getchar_interrupted a k) = 113 \<and> kbd_items (snd (kbd_getchar_interrupted a k)) = [10, 10]"
proof -
  define b where "b = boot_kernel (\<lambda>_. 0) (\<lambda>_. 0) (\<lambda>_ i. if i = 0 then 0x10 else 0x1C)"
  define k where "k = key_interrupts 1 b"
  let ?a = "\<lparr>at_head = 0, at_tail = 0, at_char = 1, at_next = 0, at_store = 1\<rparr>"
  have ok: "kbd_ok b" by (simp add: b_def kbd_ok_def boot_kernel_def)
  have st: "key_stream b n = typed False (map (\<lambda>i. if i = 0 then 0x10 else 0x1C) [0..<n])" "in_count b 0x60 = 0" for n
    by (simp_all add: key_stream_def b_def boot_kernel_def kbd_items_def ring_items_def ring_count_def)
  have t: "key_stream b 1 = [113]" "key_stream b 3 = [113, 10, 10]"
    unfolding st by (simp_all add: upt_rec key_step_def scancode_table_def)
  have i: "kbd_items (key_interrupts n b) = key_stream b n" if "length (key_stream b n) \<le> 255" for n
    using key_flow_interrupts [OF ok, of n] that key_interrupts_shift [OF ok, of n] by (simp add: key_flow_def st(2))
  have k: "kbd_ok k" "kbd_items k = [113]" using key_interrupts_ok [OF ok, of 1] i [of 1] t by (simp_all add: k_def)
  have "kbd_items (key_interrupts 2 k) = [113, 10, 10]" using i [of 3] t by (simp add: k_def funpow_swap1 numeral_eq_Suc)
  note g = kbd_getchar_items [OF key_interrupts_ok [OF k(1)] this]
  have "kbd_char_available k" using kbd_getchar_is_dequeue [OF k(1)] k(2) by simp
  then have e: "kbd_getchar_interrupted ?a k = kbd_getchar (key_interrupts 2 k)"
    using kbd_getchar_atomic [OF k(1), of ?a] by (simp add: arrivals_before_def arrivals_all_def Let_def numeral_2_eq_2)
  then show ?thesis using g unfolding k_def b_def by (simp add: Let_def)
qed



end
