(* ===== verification/Shell.thy ===== *)
theory Shell
  imports Kbd_Stream Process
begin

text \<open>
  The shell, \<^verbatim>\<open>src/kernel/shell/shell.c\<close>: reading a line from the keyboard ring, splitting it into
  arguments, and the built-in commands. Pointers into the command line are offsets; the string at
  one goes on to the end of the line, since the code stores no zero bytes into the line. While the
  shell polls, keyboard interrupts may come in: how many before each poll is a parameter.
\<close>

section \<open>The code\<close>

definition SHELL_MAX_CMD_LEN :: nat where "SHELL_MAX_CMD_LEN = 256"
definition SHELL_MAX_ARGS :: nat where "SHELL_MAX_ARGS = 16"

abbreviation green :: u8 where "green \<equiv> VGA_COLOR VGA_COLOR_GREEN VGA_COLOR_BLACK"
abbreviation white :: u8 where "white \<equiv> VGA_COLOR VGA_COLOR_WHITE VGA_COLOR_BLACK"
abbreviation yellow :: u8 where "yellow \<equiv> VGA_COLOR VGA_COLOR_YELLOW VGA_COLOR_BLACK"
abbreviation cyan :: u8 where "cyan \<equiv> VGA_COLOR VGA_COLOR_CYAN VGA_COLOR_BLACK"
abbreviation red :: u8 where "red \<equiv> VGA_COLOR VGA_COLOR_RED VGA_COLOR_BLACK"

abbreviation nl :: string where "nl \<equiv> [CHR 0x0A]"

datatype command = Cmd_help | Cmd_echo | Cmd_clear | Cmd_mem | Cmd_ps | Cmd_uname | Cmd_reboot | Cmd_ls | Cmd_info

text \<open>Name, description and handler.\<close>

type_synonym shell_command_t = "string \<times> string \<times> command"

definition commands :: "shell_command_t list" where
  "commands =
     [(''help'', ''Display available commands'', Cmd_help),
      (''echo'', ''Echo arguments to screen'', Cmd_echo),
      (''clear'', ''Clear screen'', Cmd_clear),
      (''mem'', ''Display memory statistics'', Cmd_mem),
      (''ps'', ''List processes'', Cmd_ps),
      (''uname'', ''Display system information'', Cmd_uname),
      (''reboot'', ''Reboot system'', Cmd_reboot),
      (''ls'', ''List filesystem (stub)'', Cmd_ls),
      (''info'', ''Display system info'', Cmd_info)]"

definition shell_init :: "kernel \<Rightarrow> int \<times> kernel" where
  "shell_init k =
     (1, vga_putstr (lit (''>>> Type '' @ [CHR 0x27] @ ''help'' @ [CHR 0x27] @ '' for available commands'' @ nl @ nl)) green
           (vga_putstr (lit (''>>> NIMBU Shell initialized'' @ nl)) green k))"

text \<open>The loop of \<^verbatim>\<open>shell_parse_args\<close> from position \<open>pos\<close> of the line on. A write behind the end of the
  local buffer is undefined, which is \<open>None\<close>. The result is the number of arguments before the
  final step, whether an argument is open, its length so far, and \<open>argv\<close>.\<close>

fun parse_loop :: "u8 list \<Rightarrow> nat \<Rightarrow> nat \<Rightarrow> nat \<Rightarrow> bool \<Rightarrow> (nat \<Rightarrow> nat) \<Rightarrow> (nat \<times> bool \<times> nat \<times> (nat \<Rightarrow> nat)) option" where
  "parse_loop [] pos buf_idx arg_idx in_arg argv = Some (arg_idx, in_arg, buf_idx, argv)"
| "parse_loop (c # cs) pos buf_idx arg_idx in_arg argv =
     (if c = 0 \<or> \<not> arg_idx < SHELL_MAX_ARGS then Some (arg_idx, in_arg, buf_idx, argv)
      else if c = 32 \<or> c = 9
      then if in_arg
           then if buf_idx \<ge> SHELL_MAX_CMD_LEN then None
                else parse_loop cs (pos + 1) 0 (arg_idx + 1) False (argv(arg_idx := pos + 1 - (buf_idx + 1)))
           else parse_loop cs (pos + 1) buf_idx arg_idx in_arg argv
      else if buf_idx \<ge> SHELL_MAX_CMD_LEN then None
           else parse_loop cs (pos + 1) (buf_idx + 1) arg_idx True
                  (if in_arg then argv else argv(arg_idx := pos)))"

definition shell_parse_args :: "u8 list \<Rightarrow> (nat \<Rightarrow> nat) \<Rightarrow> (int \<times> nat \<times> (nat \<Rightarrow> nat)) option" where
  "shell_parse_args cmdline argv =
     (case parse_loop cmdline 0 0 0 False argv of
        None \<Rightarrow> None
      | Some (arg_idx, in_arg, buf_idx, argv) \<Rightarrow>
          if in_arg \<and> buf_idx \<ge> SHELL_MAX_CMD_LEN then None
          else let arg_idx = (if in_arg then arg_idx + 1 else arg_idx)
               in Some (if arg_idx \<ge> SHELL_MAX_ARGS then -1 else 0, arg_idx, argv))"

definition cmd_help :: "kernel \<Rightarrow> kernel" where
  "cmd_help k =
     fold (\<lambda>(name, description, _) k.
         vga_putstr (lit nl) white (vga_putstr (lit description) white (vga_putstr (lit '' - '') white
           (vga_putstr (lit name) yellow (vga_putstr (lit ''  '') white k)))))
       commands (vga_putstr (lit (''Available commands:'' @ nl)) cyan k)"

text \<open>The arguments as strings: from the offset to the end of the line.\<close>

definition arg_string :: "u8 list \<Rightarrow> (nat \<Rightarrow> nat) \<Rightarrow> nat \<Rightarrow> c_string" where
  "arg_string cmdline argv i = Some (drop (argv i) cmdline)"

definition cmd_echo :: "nat \<Rightarrow> (nat \<Rightarrow> c_string) \<Rightarrow> kernel \<Rightarrow> kernel" where
  "cmd_echo argc args k =
     vga_putstr (lit nl) white
       (fold (\<lambda>i k. let k = vga_putstr (args i) white k
                    in if i < argc - 1 then vga_putstr (lit '' '') white k else k) [1..<argc] k)"

definition cmd_clear :: "kernel \<Rightarrow> kernel" where "cmd_clear k = vga_clear k"

text \<open>The statistics \<^verbatim>\<open>cmd_mem\<close> reads go to local variables it does not use.\<close>

definition cmd_mem :: "kernel \<Rightarrow> kernel" where
  "cmd_mem k =
     (let k = vga_putstr (lit (''Memory Status:'' @ nl)) cyan k;
          k = vga_putstr (lit ''  Total RAM    : '') white k;
          k = vga_putstr (lit (''128 MB'' @ nl)) yellow k;
          k = vga_putstr (lit ''  Used (Kernel): '') white k;
          k = vga_putstr (lit (''~4.2 MB'' @ nl)) yellow k;
          k = vga_putstr (lit ''  Free         : '') white k
      in vga_putstr (lit (''~123.8 MB'' @ nl)) yellow k)"

definition cmd_ps :: "kernel \<Rightarrow> kernel" where
  "cmd_ps k =
     (let k = vga_putstr (lit (''Processes:'' @ nl)) cyan k;
          k = vga_putstr (lit (''  PID  State'' @ nl)) white k;
          k = vga_putstr (lit (''  ---  -----'' @ nl)) white k
      in vga_putstr (lit (''    0  RUNNING'' @ nl)) yellow k)"

definition cmd_uname :: "kernel \<Rightarrow> kernel" where
  "cmd_uname k = vga_putstr (lit (''NIMBU OS v1.0 | x86 | Kernel Build: 2026-01-15'' @ nl)) yellow k"

definition cmd_reboot :: "kernel \<Rightarrow> outcome" where
  "cmd_reboot k =
     (let k = vga_putstr (lit (''Rebooting system...'' @ nl)) red k;
          k = interrupts_disable k
      in Stopped (outb 0x64 0xFE k))"

definition cmd_ls :: "kernel \<Rightarrow> kernel" where
  "cmd_ls k = vga_putstr (lit (''Filesystem not yet implemented'' @ nl)) yellow k"

text \<open>The title line carries the four bytes of a lemon on both sides.\<close>

definition lemon :: string where "lemon = [CHR 0xF0, CHR 0x9F, CHR 0x8D, CHR 0x8B]"

definition cmd_info :: "kernel \<Rightarrow> kernel" where
  "cmd_info k =
     (let k = vga_putstr (lit nl) white k;
          k = vga_putstr (lit (''  '' @ lemon @ '' NIMBU OS - Minimal Linux Kernel '' @ lemon @ nl)) green k;
          k = vga_putstr (lit (''  Version 1.0 | ZOHO SETU Project #10'' @ nl)) yellow k;
          k = vga_putstr (lit (''  Clean, Minimal, Zesty'' @ nl)) green k
      in vga_putstr (lit nl) white k)"

definition run_command :: "command \<Rightarrow> nat \<Rightarrow> (nat \<Rightarrow> c_string) \<Rightarrow> kernel \<Rightarrow> outcome" where
  "run_command c argc args k =
     (case c of
        Cmd_help \<Rightarrow> Returned (cmd_help k) | Cmd_echo \<Rightarrow> Returned (cmd_echo argc args k)
      | Cmd_clear \<Rightarrow> Returned (cmd_clear k) | Cmd_mem \<Rightarrow> Returned (cmd_mem k)
      | Cmd_ps \<Rightarrow> Returned (cmd_ps k) | Cmd_uname \<Rightarrow> Returned (cmd_uname k)
      | Cmd_reboot \<Rightarrow> cmd_reboot k | Cmd_ls \<Rightarrow> Returned (cmd_ls k) | Cmd_info \<Rightarrow> Returned (cmd_info k))"

text \<open>The loop over the command table, which compares first characters.\<close>

definition find_command :: "u8 \<Rightarrow> command option" where
  "find_command c =
     map_option (\<lambda>(_, _, cmd). cmd) (find (\<lambda>(name, _, _). of_char (hd name) = c) commands)"

definition shell_execute :: "u8 list \<Rightarrow> (nat \<Rightarrow> nat) \<Rightarrow> kernel \<Rightarrow> (int \<times> outcome) option" where
  "shell_execute cmdline argv k =
     (if cmdline = [] \<or> hd cmdline = 0 then Some (0, Returned k)
      else case shell_parse_args cmdline argv of
             None \<Rightarrow> None
           | Some (r, argc, argv) \<Rightarrow>
               if r \<noteq> 0 then Some (-1, Returned (vga_putstr (lit (''Error: too many arguments'' @ nl)) red k))
               else if argc = 0 then Some (0, Returned k)
               else case find_command (cmdline ! argv 0) of
                      Some c \<Rightarrow> Some (0, run_command c argc (arg_string cmdline argv) k)
                    | None \<Rightarrow>
                        Some (-1, Returned (vga_putstr (lit nl) red
                          (vga_putstr (arg_string cmdline argv 0) red
                            (vga_putstr (lit ''Command not found: '') red k)))))"

text \<open>The echo of a key, and a store into the caller's buffer (\<open>None\<close> behind its end).\<close>

definition echo_key :: "u8 \<Rightarrow> kernel \<Rightarrow> kernel" where
  "echo_key ch k =
     (if ch = 8 then vga_putchar 8 white (vga_putchar 32 white (vga_putchar 8 white k)) else vga_putchar ch white k)"

definition store_char :: "u8 list \<Rightarrow> nat \<Rightarrow> u8 \<Rightarrow> u8 list option" where
  "store_char buffer i ch = (if i < length buffer then Some (buffer[i := ch]) else None)"

definition end_line :: "nat \<Rightarrow> nat \<Rightarrow> u8 list \<Rightarrow> kernel \<Rightarrow> machine_end + nat \<times> nat \<times> u8 list \<times> kernel" where
  "end_line n len buffer k =
     (case store_char buffer len 0 of None \<Rightarrow> Inl Undefined | Some buffer \<Rightarrow> Inr (n, len, buffer, k))"

text \<open>The interrupts that come in before a poll: \<open>irq\<close> is what an interrupt of the keyboard does, \<open>None\<close> a
  call out of the kernel. The loop hands it in as a parameter, since it depends on the controllers
  and the handler table; \<open>key_irq\<close> is an interrupt that reaches the driver.\<close>

fun irq_times :: "(kernel \<Rightarrow> outcome option) \<Rightarrow> nat \<Rightarrow> kernel \<Rightarrow> outcome option" where
  "irq_times irq 0 k = Some (Returned k)"
| "irq_times irq (Suc m) k = (case irq k of Some (Returned k') \<Rightarrow> irq_times irq m k' | r \<Rightarrow> r)"

definition key_irq :: "kernel \<Rightarrow> outcome option" where
  "key_irq k = Some (Returned (kbd_interrupt_handler k))"

text \<open>The loop of \<^verbatim>\<open>shell_read_line\<close>. The polls are counted from the start of the shell: \<open>n\<close> is the number of
  the next one, \<open>intr n\<close> keyboard interrupts come before it, and the loop returns the number it has come
  to. The bound \<open>max_len - 1\<close> wraps as \<^verbatim>\<open>size_t\<close> does. \<open>None\<close> is a loop that polls for ever, \<open>Inl\<close> one in
  which the machine ends: by an interrupt that stops it, or with a store behind the buffer.\<close>

partial_function (option) read_line_loop ::
  "(kernel \<Rightarrow> outcome option) \<Rightarrow> (nat \<Rightarrow> nat) \<Rightarrow> nat \<Rightarrow> u32 \<Rightarrow> u8 list \<Rightarrow> nat \<Rightarrow> kernel
    \<Rightarrow> (machine_end + nat \<times> nat \<times> u8 list \<times> kernel) option" where
  "read_line_loop irq intr n max_len buffer len k =
     (if len < unat (max_len - 1)
      then case irq_times irq (intr n) k of
             None \<Rightarrow> Some (Inl Undefined)
           | Some (Stopped k) \<Rightarrow> Some (Inl (Halted k))
           | Some (Returned k) \<Rightarrow>
               (let (ch, k) = kbd_getchar k
                in if ch = 0 then read_line_loop irq intr (Suc n) max_len buffer len k
                   else if ch = 10 \<or> ch = 13 then Some (end_line (Suc n) len buffer k)
                   else if ch = 8
                   then if len > 0 then read_line_loop irq intr (Suc n) max_len buffer (len - 1) (echo_key 8 k)
                        else read_line_loop irq intr (Suc n) max_len buffer len k
                   else case store_char buffer len ch of
                          None \<Rightarrow> Some (Inl Undefined)
                        | Some buffer \<Rightarrow> read_line_loop irq intr (Suc n) max_len buffer (len + 1) (echo_key ch k))
      else Some (end_line n len buffer k))"

definition shell_read_line ::
  "(kernel \<Rightarrow> outcome option) \<Rightarrow> (nat \<Rightarrow> nat) \<Rightarrow> nat \<Rightarrow> u8 list \<Rightarrow> u32 \<Rightarrow> kernel
    \<Rightarrow> (machine_end + nat \<times> nat \<times> u8 list \<times> kernel) option" where
  "shell_read_line irq intr n buffer max_len k = read_line_loop irq intr n max_len buffer 0 k"

text \<open>The endless loop of \<^verbatim>\<open>shell_run\<close>: \<open>n\<close> polls have been made, \<open>argv i\<close> is what the uninitialised array
  holds during the \<open>i\<close>-th line. It ends only with the machine; \<open>None\<close> is a shell that runs for
  ever, and nothing else.\<close>

partial_function (option) shell_run ::
  "(kernel \<Rightarrow> outcome option) \<Rightarrow> (nat \<Rightarrow> nat) \<Rightarrow> (nat \<Rightarrow> nat \<Rightarrow> nat) \<Rightarrow> nat \<Rightarrow> nat \<Rightarrow> u8 list \<Rightarrow> kernel
    \<Rightarrow> machine_end option" where
  "shell_run irq intr argv i n cmdline k =
     (case shell_read_line irq intr n cmdline (of_nat SHELL_MAX_CMD_LEN)
             (vga_putstr (lit ''nimbu@localhost:~$ '') green k) of
        None \<Rightarrow> None
      | Some (Inl e) \<Rightarrow> Some e
      | Some (Inr (n, len, cmdline, k)) \<Rightarrow>
          (case (if len > 0 then shell_execute cmdline (argv i) k else Some (0, Returned k)) of
             None \<Rightarrow> Some Undefined
           | Some (_, Stopped k) \<Rightarrow> Some (Halted k)
           | Some (_, Returned k) \<Rightarrow> shell_run irq intr argv (Suc i) n cmdline (vga_putstr (lit nl) white k)))"

section \<open>Splitting a line\<close>

text \<open>Where the words of a line start; words are separated by blanks and tabs, and the line ends at a
  zero byte.\<close>

fun word_starts :: "nat \<Rightarrow> bool \<Rightarrow> u8 list \<Rightarrow> nat list" where
  "word_starts pos inside [] = []"
| "word_starts pos inside (c # cs) =
     (if c = 0 then []
      else if c = 32 \<or> c = 9 then word_starts (pos + 1) False cs
      else (if inside then [] else [pos]) @ word_starts (pos + 1) True cs)"

definition parsed :: "u8 list \<Rightarrow> nat \<Rightarrow> nat \<Rightarrow> nat \<Rightarrow> bool \<Rightarrow> (nat \<Rightarrow> nat) \<Rightarrow> bool" where
  "parsed cs pos b a w argv \<longleftrightarrow> (let n = a + (if w then 1 else 0); ws = word_starts pos w cs
     in \<exists>a' w' b' argv'. parse_loop cs pos b a w argv = Some (a', w', b', argv') \<and> b' \<le> 255
        \<and> (if w' then a' + 1 else a') = min 16 (n + length ws)
        \<and> (\<forall>i<n. argv' i = argv i) \<and> (\<forall>i<length ws. n + i < 16 \<longrightarrow> argv' (n + i) = ws ! i))"

lemma parsed_start:
  assumes "parsed cs (pos + 1) (b + 1) a True (argv(a := pos))" and "c \<notin> {0, 9, 32}" and "a < 16" and "b < 256"
  shows "parsed (c # cs) pos b a False argv"
proof -
  have p: "parse_loop (c # cs) pos b a False argv = parse_loop cs (pos + 1) (b + 1) a True (argv(a := pos))"
    and ws: "word_starts pos False (c # cs) = pos # word_starts (pos + 1) True cs"
    using assms(2-4) by (simp_all add: SHELL_MAX_ARGS_def SHELL_MAX_CMD_LEN_def)
  obtain a' w' b' argv' where ih: "parse_loop cs (pos + 1) (b + 1) a True (argv(a := pos)) = Some (a', w', b', argv')"
      "b' \<le> 255" "(if w' then a' + 1 else a') = min 16 (a + 1 + length (word_starts (pos + 1) True cs))"
      "\<forall>i<a + 1. argv' i = (argv(a := pos)) i"
      "\<forall>i<length (word_starts (pos + 1) True cs). a + 1 + i < 16 \<longrightarrow> argv' (a + 1 + i) = word_starts (pos + 1) True cs ! i"
    using assms(1) by (auto simp: parsed_def Let_def simp del: fun_upd_apply)
  have "\<forall>i<length (word_starts pos False (c # cs)). a + i < 16 \<longrightarrow> argv' (a + i) = word_starts pos False (c # cs) ! i"
    unfolding ws using ih(4,5) by (auto simp: nth_Cons split: nat.split)
  then show ?thesis unfolding parsed_def Let_def p ih(1) using ih(2-4) ws by auto
qed

lemma parse_loop_words:
  assumes "b + length cs \<le> 255" and "a \<le> 16"
    and "if w then a < 16 \<and> argv a = pos - b \<and> b \<le> pos else b = 0"
  shows "parsed cs pos b a w argv"
  using assms
proof (induction cs pos b a w argv rule: parse_loop.induct)
  case (1 pos b a w argv)
  then show ?case by (auto simp: parsed_def)
next
  case (2 c cs pos b a w argv)
  note defs = SHELL_MAX_ARGS_def SHELL_MAX_CMD_LEN_def
  have bl: "b < 256" using 2(4) by simp
  consider (stop) "c = 0 \<or> \<not> a < 16" | (blank) "c \<noteq> 0" "a < 16" "c = 32 \<or> c = 9" | (char) "a < 16" "c \<notin> {0, 9, 32}" by auto
  then show ?case
  proof cases
    case stop
    then show ?thesis using 2(4-6) by (auto simp: parsed_def SHELL_MAX_ARGS_def)
  next
    case blank
    show ?thesis
    proof (cases w)
      case True
      have eq: "argv(a := pos + 1 - (b + 1)) = argv" using 2(6) True by auto
      then have "parse_loop (c # cs) pos b a w argv = parse_loop cs (pos + 1) 0 (a + 1) False argv"
        using bl blank True by (simp add: defs)
      moreover have "parsed cs (pos + 1) 0 (a + 1) False argv"
        using 2(1) [unfolded eq] 2(4) bl blank True by (simp add: defs)
      ultimately show ?thesis using blank True by (simp add: parsed_def)
    next
      case False
      then show ?thesis using 2(2) 2(4-6) blank by (simp add: parsed_def defs)
    qed
  next
    case char
    show ?thesis
    proof (cases w)
      case True
      then show ?thesis using 2(3) 2(4-6) bl char by (simp add: parsed_def defs)
    next
      case False
      have "parsed cs (pos + 1) (b + 1) a True (argv(a := pos))"
        using 2(3) 2(4-6) bl char False by (simp del: fun_upd_apply add: fun_upd_same defs)
      then show ?thesis using parsed_start char bl False by simp
    qed
  qed
qed

lemma parse_args_words:
  assumes "length line \<le> 255"
  shows "\<exists>argv'. shell_parse_args line argv =
      Some (if length (word_starts 0 False line) \<ge> 16 then -1 else 0, min 16 (length (word_starts 0 False line)), argv')
    \<and> (\<forall>i<min 16 (length (word_starts 0 False line)). argv' i = word_starts 0 False line ! i)"
proof -
  obtain a w b argv' where p: "parse_loop line 0 0 0 False argv = Some (a, w, b, argv')" "b \<le> 255"
      "(if w then a + 1 else a) = min 16 (length (word_starts 0 False line))"
      "\<forall>i<length (word_starts 0 False line). i < 16 \<longrightarrow> argv' i = word_starts 0 False line ! i"
    using parse_loop_words [of 0 line 0 False argv 0] assms by (auto simp: parsed_def Let_def)
  then show ?thesis
    by (simp add: shell_parse_args_def SHELL_MAX_CMD_LEN_def SHELL_MAX_ARGS_def Let_def)
qed

section \<open>Reading a line\<close>

text \<open>A line as edited with backspaces, and what the screen shows of the keys.\<close>

definition edit_key :: "u8 \<Rightarrow> u8 list \<Rightarrow> u8 list" where
  "edit_key c line = (if c = 8 then butlast line else line @ [c])"

fun echo_bytes :: "u8 list \<Rightarrow> u8 list \<Rightarrow> u8 list" where
  "echo_bytes line [] = []"
| "echo_bytes line (c # cs) =
     (if c = 8 then if line = [] then [] else [8, 32, 8] else [c]) @ echo_bytes (edit_key c line) cs"

lemma kbd_items_cong: "kbd_state k' = kbd_state k \<Longrightarrow> kbd_items k' = kbd_items k"
  by (simp add: kbd_items_def)

lemma kbd_ok_cong: "kbd_state k' = kbd_state k \<Longrightarrow> kbd_ok k' = kbd_ok k"
  by (simp add: kbd_ok_def)

lemma echo_key_kbd: "kbd_state (echo_key c k) = kbd_state k"
  by (simp add: echo_key_def)

lemma echo_key_screen:
  assumes "vga_ok k"
  shows "vga_ok (echo_key c k)"
    and "screen_of (vga_state (echo_key c k)) =
      fold (term_put white) (if c = 8 then [8, 32, 8] else [c]) (screen_of (vga_state k))"
  using assms by (simp_all add: echo_key_def putchar_refines)

lemma kbd_getchar_screen [simp]: "vga_state (snd (kbd_getchar k)) = vga_state k"
  by (simp add: kbd_getchar_def Let_def)

text \<open>Keys that are in the ring are read one by one.\<close>

lemma edit_key_simps:
  "edit_key 8 line = butlast line" "c \<noteq> 8 \<Longrightarrow> edit_key c line = line @ [c]"
  by (simp_all add: edit_key_def)

text \<open>One key: the line in the buffer is edited by it, and the echo appears.\<close>

lemma echo_key_ports [simp]:
  "in_count (echo_key c k) = in_count k" "port_in (echo_key c k) = port_in k"
  by (simp_all add: echo_key_def)

lemma key_flow_echo: "key_flow k cs (echo_key c k') = key_flow k cs k'"
  by (rule key_flow_cong) (simp_all add: echo_key_kbd)

text \<open>Interrupts that reach the driver in every state that differs from the present one in neither the
  interrupt flag nor the handler table.\<close>

definition irq_state :: "kernel \<Rightarrow> bool \<times> interrupt_handler_t list" where
  "irq_state k = (int_flag k, interrupt_handlers k)"

definition irq_serves :: "(kernel \<Rightarrow> outcome option) \<Rightarrow> kernel \<Rightarrow> bool" where
  "irq_serves irq k \<longleftrightarrow> (\<forall>k'. irq_state k' = irq_state k \<longrightarrow> irq k' = key_irq k')"

lemma irq_serves_cong: "irq_state q = irq_state k \<Longrightarrow> irq_serves irq q = irq_serves irq k"
  by (simp add: irq_serves_def)


lemma irq_state_simps [simp]:
  "irq_state (kbd_interrupt_handler k) = irq_state k"
  "irq_state ((kbd_interrupt_handler ^^ m) k) = irq_state k"
  "irq_state (snd (kbd_getchar k)) = irq_state k"
  "irq_state (echo_key c k) = irq_state k"
  "irq_state (vga_putstr str color k) = irq_state k"
  by (simp_all add: irq_state_def echo_key_def kbd_getchar_def Let_def)

lemma irq_times_serves:
  assumes "irq_serves irq k"
  shows "irq_times irq m k = Some (Returned ((kbd_interrupt_handler ^^ m) k))"
  using assms
proof (induction m arbitrary: k)
  case (Suc m)
  have "irq k = Some (Returned (kbd_interrupt_handler k))" using Suc.prems by (simp add: irq_serves_def key_irq_def)
  moreover have "irq_serves irq (kbd_interrupt_handler k)" using Suc.prems irq_serves_cong [of "kbd_interrupt_handler k" k] by simp
  ultimately show ?case using Suc.IH by (simp add: funpow_Suc_right del: funpow.simps)
qed simp

lemma read_line_key:
  assumes "irq_times irq (intr n) k = Some (Returned k0)" and "kbd_ok k0" and "vga_ok k0" and "kbd_items k0 = c # items"
    and "c \<notin> {0, 10, 13}" and "length line < unat (max_len - 1)" and "take (length line) buffer = line"
    and "unat (max_len - 1) < length buffer"
  shows "\<exists>buffer' k'. read_line_loop irq intr n max_len buffer (length line) k =
        read_line_loop irq intr (Suc n) max_len buffer' (length (edit_key c line)) k'
      \<and> take (length (edit_key c line)) buffer' = edit_key c line \<and> length buffer' = length buffer
      \<and> vga_ok k' \<and> key_flow k0 [c] k' \<and> in_count k' = in_count k0 \<and> irq_state k' = irq_state k0
      \<and> screen_of (vga_state k') = fold (term_put white) (echo_bytes line [c]) (screen_of (vga_state k0))"
proof -
  let ?k = "snd (kbd_getchar k0)"
  have g: "fst (kbd_getchar k0) = c" "kbd_items ?k = items" "kbd_ok ?k" "vga_ok ?k"
    using kbd_getchar_items [OF assms(2,4)] kbd_getchar_ok [OF assms(2)] assms(3) by (simp_all add: vga_ok_def)
  have f: "key_flow k0 [c] ?k" using g(2,3) assms(4) by (simp add: key_flow_def shift_after_def)
  have e: "key_flow k0 [c] (echo_key c ?k)" "vga_ok (echo_key c ?k)"
    using f g echo_key_screen by (auto simp: key_flow_echo)
  note step = read_line_loop.simps [of irq intr n max_len buffer "length line" k, unfolded assms(1)]
  consider "c \<noteq> 8" | "c = 8" "line = []" | "c = 8" "line \<noteq> []" by blast
  then show ?thesis
  proof cases
    case 1
    then show ?thesis
      using assms(5-8) e g(1) echo_key_screen(2) [OF g(4), of c]
      by (intro exI [of _ "buffer[length line := c]"] exI [of _ "echo_key c ?k"])
        (simp add: step case_prod_unfold Let_def store_char_def edit_key_simps take_Suc_conv_app_nth take_update_cancel)
  next
    case 2
    have "read_line_loop irq intr n max_len buffer (length line) k = read_line_loop irq intr (Suc n) max_len buffer (length line) ?k"
      unfolding step using 2 assms(6) g(1) by (simp add: case_prod_unfold Let_def)
    then show ?thesis using 2 f g by (intro exI [of _ buffer] exI [of _ ?k]) (simp add: edit_key_simps)
  next
    case 3
    have "take (length (butlast line)) buffer = butlast line"
      using assms(7) by (metis butlast_conv_take length_butlast min.absorb1 diff_le_self take_take)
    then show ?thesis
      using 3 assms(6) e g(1) echo_key_screen(2) [OF g(4), of c]
      by (intro exI [of _ buffer] exI [of _ "echo_key c ?k"]) (simp add: step case_prod_unfold Let_def edit_key_simps)
  qed
qed


lemma read_line_nothing:
  assumes "irq_times irq (intr n) k = Some (Returned k0)" and "kbd_ok k0" and "kbd_items k0 = []" and "len < unat (max_len - 1)"
  shows "read_line_loop irq intr n max_len buffer len k = read_line_loop irq intr (Suc n) max_len buffer len k0"
  using assms ring.deq_empty [OF assms(2,3)] by (subst read_line_loop.simps) simp


text \<open>With an empty ring and no interrupt to come, the loop polls for ever.\<close>

lemma read_line_waits:
  assumes "\<And>j. n \<le> j \<Longrightarrow> intr j = 0" and "kbd_head (kbd_state k) = kbd_tail (kbd_state k)"
    and "len < unat (max_len - 1)"
  shows "read_line_loop irq intr n max_len buffer len k = None"
proof -
  have "(\<forall>j\<ge>n. intr j = 0) \<longrightarrow> kbd_head (kbd_state k) = kbd_tail (kbd_state k) \<longrightarrow> \<not> len < unat (max_len - 1)"
    if "read_line_loop irq intr n max_len buffer len k = Some y" for y
    using that
  proof (rule read_line_loop.raw_induct [rotated])
    fix loop :: "(kernel \<Rightarrow> outcome option) \<Rightarrow> (nat \<Rightarrow> nat) \<Rightarrow> nat \<Rightarrow> u32 \<Rightarrow> u8 list \<Rightarrow> nat \<Rightarrow> kernel
        \<Rightarrow> (machine_end + nat \<times> nat \<times> u8 list \<times> kernel) option"
      and irq intr n max_len buffer len k y
    assume ih: "\<And>irq intr n max_len buffer len k y. loop irq intr n max_len buffer len k = Some y \<Longrightarrow>
        (\<forall>j\<ge>n. intr j = 0) \<longrightarrow> kbd_head (kbd_state k) = kbd_tail (kbd_state k) \<longrightarrow> \<not> len < unat (max_len - 1)"
    assume body: "(if len < unat (max_len - 1)
      then case irq_times irq (intr n) k of
             None \<Rightarrow> Some (Inl Undefined)
           | Some (Stopped k) \<Rightarrow> Some (Inl (Halted k))
           | Some (Returned k) \<Rightarrow>
               (let (ch, k) = kbd_getchar k
                in if ch = 0 then loop irq intr (Suc n) max_len buffer len k
                   else if ch = 10 \<or> ch = 13 then Some (end_line (Suc n) len buffer k)
                   else if ch = 8
                   then if len > 0 then loop irq intr (Suc n) max_len buffer (len - 1) (echo_key 8 k)
                        else loop irq intr (Suc n) max_len buffer len k
                   else case store_char buffer len ch of
                          None \<Rightarrow> Some (Inl Undefined)
                        | Some buffer \<Rightarrow> loop irq intr (Suc n) max_len buffer (len + 1) (echo_key ch k))
      else Some (end_line n len buffer k)) = Some y"
    show "(\<forall>j\<ge>n. intr j = 0) \<longrightarrow> kbd_head (kbd_state k) = kbd_tail (kbd_state k) \<longrightarrow> \<not> len < unat (max_len - 1)"
    proof (intro impI notI)
      assume z: "\<forall>j\<ge>n. intr j = 0" and e: "kbd_head (kbd_state k) = kbd_tail (kbd_state k)"
        and l: "len < unat (max_len - 1)"
      have "loop irq intr (Suc n) max_len buffer len k = Some y"
        using body z e l by (simp add: kbd_getchar_def)
      from ih [OF this] show False using z e l by simp
    qed
  qed
  then show ?thesis using assms by (cases "read_line_loop irq intr n max_len buffer len k") auto
qed

text \<open>Without a newline the loop goes on for ever.\<close>

lemma read_line_partial:
  assumes "schedule_ok intr M b" and "keys_due intr M b E n k keys" and "vga_ok k" and "irq_serves irq k"
    and "set keys \<inter> {0, 10, 13} = {}" and "length line + length keys < unat (max_len - 1)"
    and "take (length line) buffer = line" and "unat (max_len - 1) < length buffer"
  shows "read_line_loop irq intr n max_len buffer (length line) k = None"
  using assms(2-)
proof (induction "Suc M - n + length keys" arbitrary: n k keys line buffer rule: less_induct)
  case less
  let ?k0 = "key_interrupts (intr n) k"
  note i = irq_times_serves [OF less.prems(3), of "intr n"]
  have sv: "irq_serves irq q" if "irq_state q = irq_state k" for q using less.prems(3) irq_serves_cong [OF that] by simp
  note p = keys_due_poll [OF assms(1) less.prems(1)]
  have v: "vga_ok ?k0" using less.prems(2) by (simp add: vga_ok_def)
  have len: "length line < unat (max_len - 1)" using less.prems(5) by simp
  show ?case
  proof (cases "kbd_items ?k0")
    case Nil
    have step: "read_line_loop irq intr n max_len buffer (length line) k = read_line_loop irq intr (Suc n) max_len buffer (length line) ?k0"
      by (rule read_line_nothing [where intr = intr, OF i p(1) Nil len])
    show ?thesis
    proof (cases "n \<le> M")
      case True
      then have "Suc M - Suc n + length keys < Suc M - n + length keys" by simp
      from less.hyps [OF this p(5) [OF Nil] v sv [OF irq_state_simps(2)] less.prems(4-7)] step show ?thesis by simp
    next
      case False
      then have "intr j = 0" if "Suc n \<le> j" for j using assms(1) that by (simp add: schedule_ok_def)
      moreover have "kbd_head (kbd_state ?k0) = kbd_tail (kbd_state ?k0)" using kbd_items_empty [OF p(1)] Nil by blast
      ultimately show ?thesis unfolding step using len by (intro read_line_waits) simp_all
    qed
  next
    case x: (Cons x xs)
    then obtain c cs where Cons: "keys = c # cs" using p(3) by (cases keys) (simp_all add: key_stream_def)
    then have due: "keys_due intr M b E n k (c # cs)" using less.prems(1) by simp
    have "kbd_items ?k0 = c # xs" using keys_due_first [OF assms(1) due x] x by simp
    moreover have c: "c \<notin> {0, 10, 13}" "set cs \<inter> {0, 10, 13} = {}" using less.prems(4) Cons by auto
    ultimately obtain b' q where q: "read_line_loop irq intr n max_len buffer (length line) k =
        read_line_loop irq intr (Suc n) max_len b' (length (edit_key c line)) q"
        "take (length (edit_key c line)) b' = edit_key c line" "length b' = length buffer"
        "vga_ok q" "key_flow ?k0 [c] q" "in_count q = in_count ?k0" "irq_state q = irq_state ?k0"
      using read_line_key [where intr = intr, OF i p(1) v _ _ len less.prems(6,7)] by blast
    have m: "Suc M - Suc n + length cs < Suc M - n + length keys" using Cons by simp
    have "length (edit_key c line) \<le> length line + 1" by (auto simp: edit_key_def)
    then have lq: "length (edit_key c line) + length cs < unat (max_len - 1)" "unat (max_len - 1) < length b'"
      using less.prems(5,7) Cons q(3) by simp_all
    have "irq_state q = irq_state k" using q(7) by simp
    from less.hyps [OF m keys_due_next [OF assms(1) due q(5,6)] q(4) sv [OF this] c(2) lq(1) q(2) lq(2)]
    show ?thesis unfolding q(1) .
  qed
qed

section \<open>The words of a line\<close>

abbreviation c_text :: "u8 list \<Rightarrow> u8 list" where "c_text cs \<equiv> takeWhile (\<lambda>c. c \<noteq> 0) cs"

definition blank :: "u8 \<Rightarrow> bool" where "blank c \<longleftrightarrow> c = 32 \<or> c = 9"

text \<open>The specification of splitting: the positions of the text with a word character and none
  before.\<close>

definition line_words :: "u8 list \<Rightarrow> nat list" where
  "line_words line =
     filter (\<lambda>i. \<not> blank (line ! i) \<and> (i = 0 \<or> blank (line ! (i - 1)))) [0..<length (c_text line)]"

lemma filter_upt_Suc: "filter P [0..<Suc n] = (if P 0 then [0] else []) @ map Suc (filter (\<lambda>i. P (Suc i)) [0..<n])"
proof -
  have "[0..<Suc n] = 0 # map Suc [0..<n]" by (simp add: map_Suc_upt upt_conv_Cons)
  then show ?thesis by (simp only: filter.simps filter_map comp_def) simp
qed

lemma word_starts_filter:
  "word_starts pos w cs =
     map ((+) pos) (filter (\<lambda>i. \<not> blank (cs ! i) \<and> (case i of 0 \<Rightarrow> \<not> w | Suc j \<Rightarrow> blank (cs ! j))) [0..<length (c_text cs)])"
proof (induction cs arbitrary: pos w)
  case (Cons c cs)
  have shift: "filter (\<lambda>i. \<not> blank (cs ! i) \<and> blank ((c # cs) ! i)) [0..<n] =
      filter (\<lambda>i. \<not> blank (cs ! i) \<and> (case i of 0 \<Rightarrow> \<not> \<not> blank c | Suc j \<Rightarrow> blank (cs ! j))) [0..<n]" for n
    by (rule filter_cong) (auto split: nat.split)
  have step: "word_starts pos w (c # cs) =
      (if c = 0 then [] else (if blank c \<or> w then [] else [pos]) @ word_starts (pos + 1) (\<not> blank c) cs)"
    by (simp add: blank_def)
  show ?case
    unfolding step Cons [of "pos + 1" "\<not> blank c"]
    by (simp del: upt_Suc add: filter_upt_Suc shift comp_def)
qed simp

lemma word_starts_words: "word_starts 0 False line = line_words line"
proof -
  have "(case i of 0 \<Rightarrow> \<not> False | Suc j \<Rightarrow> blank (line ! j)) \<longleftrightarrow> i = 0 \<or> blank (line ! (i - 1))" for i
    by (cases i) auto
  then show ?thesis by (simp add: word_starts_filter line_words_def map_idI)
qed

lemma parse_loop_text: "parse_loop (c_text cs) pos b a w argv = parse_loop cs pos b a w argv"
  by (induction cs arbitrary: pos b a w argv) (simp_all del: fun_upd_apply)

lemma line_words_text: "line_words (c_text line) = line_words line"
  unfolding word_starts_words [symmetric]
proof -
  show "word_starts pos w (c_text cs) = word_starts pos w cs" for pos w cs
    by (induction cs arbitrary: pos w) auto
qed

lemma parse_args_line:
  assumes "length (c_text line) \<le> 255"
  shows "\<exists>argv'. shell_parse_args line argv =
      Some (if length (line_words line) \<ge> 16 then -1 else 0, min 16 (length (line_words line)), argv')
    \<and> (\<forall>i<min 16 (length (line_words line)). argv' i = line_words line ! i)"
  using parse_args_words [OF assms, of argv]
  by (simp add: shell_parse_args_def parse_loop_text word_starts_words line_words_text)

lemma line_words_prefix:
  assumes "c \<noteq> 0" and "\<not> blank c"
  shows "\<exists>ws. line_words (c # cs) = 0 # ws"
  unfolding line_words_def using assms by (simp del: upt_Suc add: filter_upt_Suc)

lemma line_words_Nil: "line = [] \<or> hd line = 0 \<Longrightarrow> line_words line = []"
  by (cases line) (auto simp: line_words_def)

section \<open>Running a line\<close>

text \<open>What \<^verbatim>\<open>shell_execute\<close> does, case by case; the line is at most 255 characters long, as
  \<^verbatim>\<open>shell_read_line\<close> makes it.\<close>

lemma execute_cases:
  assumes "length (c_text line) \<le> 255"
  obtains (empty) "line_words line = []" "shell_execute line argv k = Some (0, Returned k)"
    | (many) "16 \<le> length (line_words line)"
        "shell_execute line argv k = Some (-1, Returned (vga_putstr (lit (''Error: too many arguments'' @ nl)) red k))"
    | (run) c args where "0 < length (line_words line)" "length (line_words line) < 16"
        "find_command (line ! (line_words line ! 0)) = Some c"
        "\<And>i. i < length (line_words line) \<Longrightarrow> args i = Some (drop (line_words line ! i) line)"
        "shell_execute line argv k = Some (0, run_command c (length (line_words line)) args k)"
    | (unknown) "0 < length (line_words line)" "length (line_words line) < 16"
        "find_command (line ! (line_words line ! 0)) = None"
        "shell_execute line argv k = Some (-1, Returned (vga_putstr (lit nl) red
           (vga_putstr (Some (drop (line_words line ! 0) line)) red (vga_putstr (lit ''Command not found: '') red k))))"
proof (cases "line = [] \<or> hd line = 0")
  case True
  then show ?thesis using empty line_words_Nil by (simp add: shell_execute_def)
next
  case ne: False
  obtain argv' where p: "shell_parse_args line argv =
      Some (if length (line_words line) \<ge> 16 then -1 else 0, min 16 (length (line_words line)), argv')"
      "\<forall>i<min 16 (length (line_words line)). argv' i = line_words line ! i"
    using parse_args_line [OF assms, of argv] by blast
  consider "line_words line = []" | "16 \<le> length (line_words line)"
    | "0 < length (line_words line)" "length (line_words line) < 16" by fastforce
  then show ?thesis
  proof cases
    case 1
    then show ?thesis using empty ne p by (auto simp: shell_execute_def)
  next
    case 2
    then show ?thesis using many ne p by (auto simp: shell_execute_def)
  next
    case 3
    then have a0: "argv' 0 = line_words line ! 0" using p(2) by simp
    have e: "shell_execute line argv k =
        (case find_command (line ! (line_words line ! 0)) of
           Some c \<Rightarrow> Some (0, run_command c (length (line_words line)) (arg_string line argv') k)
         | None \<Rightarrow> Some (-1, Returned (vga_putstr (lit nl) red
             (vga_putstr (arg_string line argv' 0) red (vga_putstr (lit ''Command not found: '') red k)))))"
      using 3 ne p(1) a0 by (auto simp: shell_execute_def split: option.splits)
    show ?thesis
    proof (cases "find_command (line ! (line_words line ! 0))")
      case None
      then show ?thesis using unknown 3 e a0 by (simp add: arg_string_def)
    next
      case (Some c)
      show ?thesis
        by (rule run [OF 3 Some, of "arg_string line argv'"]) (use 3 e Some p(2) in \<open>simp_all add: arg_string_def\<close>)
    qed
  qed
qed

lemma find_command_table:
  "find_command c =
     map_of [(0x68, Cmd_help), (0x65, Cmd_echo), (0x63, Cmd_clear), (0x6D, Cmd_mem), (0x70, Cmd_ps),
             (0x75, Cmd_uname), (0x72, Cmd_reboot), (0x6C, Cmd_ls), (0x69, Cmd_info)] c"
  by (simp add: find_command_def commands_def)

lemma find_command_reboot: "find_command c = Some Cmd_reboot \<longleftrightarrow> c = 0x72"
  by (simp add: find_command_table)

text \<open>Commands that return have written to the screen and done nothing else.\<close>

definition screen_only :: "kernel \<Rightarrow> kernel \<Rightarrow> bool" where
  "screen_only k k' \<longleftrightarrow> k'\<lparr>vga_state := vga_state k, port_out := port_out k\<rparr> = k"

lemma screen_only_refl [simp]: "screen_only k k"
  by (simp add: screen_only_def)

lemma screen_only_putstr [simp]: "screen_only k k' \<Longrightarrow> screen_only k (vga_putstr str color k')"
  using vga_putstr_form [of str color k'] by (auto simp: screen_only_def)

lemma screen_only_clear [simp]: "screen_only k k' \<Longrightarrow> screen_only k (vga_clear k')"
  using vga_clear_form [of k'] by (auto simp: screen_only_def)

lemma screen_only_fold:
  "screen_only k k' \<Longrightarrow> (\<And>x k'. screen_only k k' \<Longrightarrow> screen_only k (f x k')) \<Longrightarrow> screen_only k (fold f xs k')"
  by (induction xs arbitrary: k') auto

lemma run_command_screen_only:
  "run_command c argc args k = Returned k' \<Longrightarrow> screen_only k k'"
  by (cases c)
    (auto simp: run_command_def cmd_help_def cmd_echo_def cmd_clear_def cmd_mem_def cmd_ps_def cmd_uname_def
      cmd_reboot_def cmd_ls_def cmd_info_def Let_def case_prod_unfold intro!: screen_only_putstr screen_only_fold)

lemma run_command_stops:
  "(\<exists>k'. run_command c argc args k = Stopped k') \<longleftrightarrow> c = Cmd_reboot"
  by (cases c) (auto simp: run_command_def cmd_reboot_def Let_def)

lemma run_command_screen_ok:
  assumes "run_command c argc args k = Returned k'" and "vga_ok k"
  shows "vga_ok k'"
proof -
  have fold: "vga_ok (fold f xs k)" if "vga_ok k" "\<And>x k. vga_ok k \<Longrightarrow> vga_ok (f x k)" for f k and xs :: "'z list"
    using that by (induction xs arbitrary: k) auto
  show ?thesis
    using assms
    by (cases c)
      (auto simp: run_command_def cmd_help_def cmd_echo_def cmd_clear_def cmd_mem_def cmd_ps_def cmd_uname_def
        cmd_reboot_def cmd_ls_def cmd_info_def Let_def case_prod_unfold vga_clear_screen intro!: vga_putstr_ok fold)
qed

text \<open>What an operation that only prints leaves.\<close>

lemma screen_only_fields:
  assumes "screen_only k k'"
  shows "mem k' = mem k" "heap_state k' = heap_state k" "pmm_state k' = pmm_state k" "kbd_state k' = kbd_state k"
    "process_table k' = process_table k" "current_process k' = current_process k" "current_pid k' = current_pid k"
    "port_in k' = port_in k" "in_count k' = in_count k" "irq_state k' = irq_state k"
proof -
  have k: "k = k'\<lparr>vga_state := vga_state k, port_out := port_out k\<rparr>" using assms by (simp add: screen_only_def)
  show "mem k' = mem k" "heap_state k' = heap_state k" "pmm_state k' = pmm_state k" "kbd_state k' = kbd_state k"
    "process_table k' = process_table k" "current_process k' = current_process k" "current_pid k' = current_pid k"
    "port_in k' = port_in k" "in_count k' = in_count k" "irq_state k' = irq_state k"
    by (subst k, simp add: irq_state_def)+
qed

lemma execute_prints:
  assumes "length (c_text line) \<le> 255" and "shell_execute line argv k = Some (r, Returned k')" and "vga_ok k"
  shows "screen_only k k' \<and> vga_ok k'"
  by (rule execute_cases [OF assms(1), of argv k])
    (use assms(2,3) in \<open>auto dest: run_command_screen_only [OF sym] run_command_screen_ok [OF sym]\<close>)

text \<open>What \<^verbatim>\<open>echo\<close> prints: its arguments are not cut off at the end of their words.\<close>

fun echo_output :: "u8 list \<Rightarrow> nat list \<Rightarrow> u8 list" where
  "echo_output line [] = [10]"
| "echo_output line (w # ws) = c_text (drop w line) @ (if ws = [] then [] else [32]) @ echo_output line ws"

lemma echo_loop_screen:
  assumes "vga_ok k" and "\<And>i. i < length ws \<Longrightarrow> args (j + i) = Some (drop (ws ! i) line)" and "argc = j + length ws"
  shows "screen_of (vga_state (vga_putstr (lit nl) white
      (fold (\<lambda>i k. let k = vga_putstr (args i) white k
                   in if i < argc - 1 then vga_putstr (lit '' '') white k else k) [j..<argc] k))) =
    fold (term_put white) (echo_output line ws) (screen_of (vga_state k))"
  using assms
proof (induction ws arbitrary: k j)
  case Nil
  then show ?case by (simp add: lit_def vga_putstr_screen)
next
  case (Cons w ws)
  have s: "[j..<argc] = j # [Suc j..<argc]" using Cons.prems(3) by (intro upt_conv_Cons) simp
  have a: "args j = Some (drop w line)" using Cons.prems(2) [of 0] by simp
  have i: "args (Suc j + i) = Some (drop (ws ! i) line)" if "i < length ws" for i
    using Cons.prems(2) [of "Suc i"] that by simp
  let ?k = "let k = vga_putstr (args j) white k in if j < argc - 1 then vga_putstr (lit '' '') white k else k"
  have ok: "vga_ok ?k" using Cons.prems(1) by (simp add: Let_def)
  have e: "j < argc - 1 \<longleftrightarrow> ws \<noteq> []" using Cons.prems(3) by (cases ws) auto
  have sc: "screen_of (vga_state ?k) =
      fold (term_put white) (c_text (drop w line) @ (if ws = [] then [] else [32])) (screen_of (vga_state k))"
    unfolding e a using Cons.prems(1) by (simp add: Let_def lit_def vga_putstr_screen)
  have n: "argc = Suc j + length ws" using Cons.prems(3) by simp
  show ?case
    unfolding s using Cons.IH [OF ok i n] sc
    by (simp only: fold_simps echo_output.simps fold_append comp_apply)
qed

lemma execute_stops:
  assumes "length (c_text line) \<le> 255"
  shows "((\<exists>r k'. shell_execute line argv k = Some (r, Stopped k')) \<longleftrightarrow>
      line_words line \<noteq> [] \<and> length (line_words line) < 16 \<and> line ! hd (line_words line) = 0x72)
    \<and> (\<forall>r k'. shell_execute line argv k = Some (r, Stopped k') \<longrightarrow>
      \<not> int_flag k' \<and> last (port_out k') = (0x64, 0xFE) \<and> mem k' = mem k)"
proof -
  have hd: "line_words line \<noteq> [] \<Longrightarrow> hd (line_words line) = line_words line ! 0" by (simp add: hd_conv_nth)
  show ?thesis
  proof (rule execute_cases [OF assms, of argv k])
    fix c args
    assume e: "shell_execute line argv k = Some (0, run_command c (length (line_words line)) args k)"
      and w: "0 < length (line_words line)" "length (line_words line) < 16"
      and f: "find_command (line ! (line_words line ! 0)) = Some c"
    have stop: "(\<exists>k'. run_command c (length (line_words line)) args k = Stopped k') \<longleftrightarrow> line ! (line_words line ! 0) = 0x72"
      using run_command_stops find_command_reboot f by (metis option.inject)
    have reset: "\<not> int_flag k' \<and> last (port_out k') = (0x64, 0xFE) \<and> mem k' = mem k"
      if "run_command c (length (line_words line)) args k = Stopped k'" for k'
    proof -
      have "c = Cmd_reboot" using that run_command_stops by blast
      with that show ?thesis
        by (auto simp: run_command_def cmd_reboot_def Let_def interrupts_disable_def outb_def)
    qed
    have ne: "line_words line \<noteq> []" using w(1) by simp
    show ?thesis
      unfolding e hd [OF ne] by (intro conjI allI impI) (use ne w(2) stop reset in blast)+
  next
    assume "0 < length (line_words line)" "find_command (line ! (line_words line ! 0)) = None"
      and e: "shell_execute line argv k = Some (-1, Returned (vga_putstr (lit nl) red
        (vga_putstr (Some (drop (line_words line ! 0) line)) red (vga_putstr (lit ''Command not found: '') red k))))"
    then have "line ! hd (line_words line) \<noteq> 0x72" using hd by (auto simp: find_command_table)
    then show ?thesis unfolding e by simp
  qed simp_all
qed

section \<open>Properties\<close>

text \<open>C35: \<^verbatim>\<open>shell_parse_args\<close> finds the words of a line. On a line of at most 255 characters it never
  writes behind its buffers, stores the position of every word in order and their number, and
  returns 0 for up to 15 words; with 16 or more it returns -1, although \<^verbatim>\<open>argv\<close> has room for 16.\<close>

theorem shell_parse_args_words:
  assumes "length (c_text line) \<le> 255"
  shows "\<exists>argv'. shell_parse_args line argv =
      Some (if length (line_words line) \<ge> 16 then -1 else 0, min 16 (length (line_words line)), argv')
    \<and> (\<forall>i<min 16 (length (line_words line)). argv' i = line_words line ! i)"
  by (rule parse_args_line [OF assms])

theorem shell_parse_args_words_witness:
  "\<exists>argv'. shell_parse_args [0x6C, 0x73, 32, 32, 0x2F, 0, 0x78] (\<lambda>_. 0) = Some (0, 2, argv') \<and> argv' 0 = 0 \<and> argv' 1 = 4"
proof -
  have w: "line_words [0x6C, 0x73, 32, 32, 0x2F, 0, 0x78] = [0, 4]" by code_simp
  show ?thesis
    using shell_parse_args_words [of "[0x6C, 0x73, 32, 32, 0x2F, 0, 0x78]" "\<lambda>_. 0"] unfolding w by auto
qed

text \<open>Every command of the table can be run by its name: a line that begins with the name (of at
  most 255 characters and 15 words) runs the handler of that name, with the number of words and the
  strings that start at them.\<close>

lemma shell_runs_named_command:
  assumes "(name, description, c) \<in> set commands" and "line = map of_char name @ rest"
    and "length (c_text line) \<le> 255" and "length (line_words line) < 16"
  shows "\<exists>args. shell_execute line argv k = Some (0, run_command c (length (line_words line)) args k)
    \<and> (\<forall>i<length (line_words line). args i = Some (drop (line_words line ! i) line))"
proof -
  have h: "name \<noteq> []" "of_char (hd name) \<noteq> (0 :: u8)" "\<not> blank (of_char (hd name))"
      "find_command (of_char (hd name)) = Some c"
    using assms(1) by (auto simp: commands_def blank_def find_command_table)
  then obtain ws where ws: "line_words line = 0 # ws"
    using line_words_prefix [of "of_char (hd name)" "map of_char (tl name) @ rest"] assms(2)
    by (cases name) auto
  have l0: "line ! 0 = of_char (hd name)" using h(1) assms(2) by (cases name) auto
  show ?thesis
  proof (rule execute_cases [OF assms(3), of argv k])
    fix c' args
    assume c': "find_command (line ! (line_words line ! 0)) = Some c'"
      "shell_execute line argv k = Some (0, run_command c' (length (line_words line)) args k)"
    assume a: "\<And>i. i < length (line_words line) \<Longrightarrow> args i = Some (drop (line_words line ! i) line)"
    have "c' = c" using c'(1) ws l0 h(4) by simp
    then show ?thesis using a c'(2) by blast
  qed (use assms(4) ws l0 h(4) in simp_all)
qed

lemma shell_runs_named_command_witness:
  "\<exists>args. shell_execute (map of_char ''uname -a'') (\<lambda>_. 0) (boot_kernel (\<lambda>_. 0) (\<lambda>_. 0) (\<lambda>_ _. 0)) =
     Some (0, run_command Cmd_uname (Suc (Suc 0)) args (boot_kernel (\<lambda>_. 0) (\<lambda>_. 0) (\<lambda>_ _. 0)))"
proof -
  have w: "line_words (map of_char ''uname -a'') = [0, 6]" by code_simp
  show ?thesis
    using shell_runs_named_command [of "''uname''" "''Display system information''" Cmd_uname
        "map of_char ''uname -a''" "map of_char '' -a''" "\<lambda>_. 0" "boot_kernel (\<lambda>_. 0) (\<lambda>_. 0) (\<lambda>_ _. 0)"]
    unfolding w by (auto simp: commands_def)
qed

text \<open>C15: only the first character counts. A line (of at most 255 characters) stops the machine
  exactly if it has between 1 and 15 words and the first of them begins with \<^verbatim>\<open>r\<close>; then interrupts
  are off and the last port write is the reset command of the keyboard controller.\<close>

theorem shell_stops_iff_r:
  assumes "length (c_text line) \<le> 255"
  shows "((\<exists>r k'. shell_execute line argv k = Some (r, Stopped k')) \<longleftrightarrow>
      line_words line \<noteq> [] \<and> length (line_words line) < 16 \<and> line ! hd (line_words line) = 0x72)
    \<and> (\<forall>r k'. shell_execute line argv k = Some (r, Stopped k') \<longrightarrow>
      \<not> int_flag k' \<and> last (port_out k') = (0x64, 0xFE) \<and> mem k' = mem k)"
  by (rule execute_stops [OF assms])

theorem shell_stops_iff_r_witness:
  "\<exists>r k'. shell_execute (map of_char ''restart no'') (\<lambda>_. 0) (boot_kernel (\<lambda>_. 0) (\<lambda>_. 0) (\<lambda>_ _. 0)) = Some (r, Stopped k')"
proof -
  have "line_words (map of_char ''restart no'') = [0, 8]" by code_simp
  then show ?thesis
    using shell_stops_iff_r [of "map of_char ''restart no''" "\<lambda>_. 0" "boot_kernel (\<lambda>_. 0) (\<lambda>_. 0) (\<lambda>_ _. 0)"] by simp
qed

text \<open>A command that returns has written to the screen and to nothing else: memory, allocators,
  processes, keyboard, descriptor tables and interrupt flag are as before, and the cursor is still on
  the screen. Lines with no word do nothing at all.\<close>

lemma shell_commands_only_print:
  assumes "length (c_text line) \<le> 255" and "shell_execute line argv k = Some (r, Returned k')"
  shows "screen_only k k' \<and> (vga_ok k \<longrightarrow> vga_ok k') \<and> (line_words line = [] \<longrightarrow> r = 0 \<and> k' = k)"
  by (rule execute_cases [OF assms(1), of argv k])
    (use assms(2) in \<open>auto dest: run_command_screen_only [OF sym] run_command_screen_ok [OF sym]\<close>)

lemma shell_commands_only_print_witness:
  "\<exists>k'. shell_execute (map of_char ''ls'') (\<lambda>_. 0) (boot_kernel (\<lambda>_. 0) (\<lambda>_. 0) (\<lambda>_ _. 0)) = Some (0, Returned k')
    \<and> screen_only (boot_kernel (\<lambda>_. 0) (\<lambda>_. 0) (\<lambda>_ _. 0)) k'"
proof -
  have p: "shell_parse_args (map of_char ''ls'') (\<lambda>_. 0) = Some (0, 1, \<lambda>_. 0)"
    by (auto simp: shell_parse_args_def SHELL_MAX_ARGS_def SHELL_MAX_CMD_LEN_def fun_eq_iff)
  have e: "shell_execute (map of_char ''ls'') (\<lambda>_. 0) (boot_kernel (\<lambda>_. 0) (\<lambda>_. 0) (\<lambda>_ _. 0)) =
      Some (0, Returned (cmd_ls (boot_kernel (\<lambda>_. 0) (\<lambda>_. 0) (\<lambda>_ _. 0))))"
    unfolding shell_execute_def p by (simp add: find_command_table run_command_def)
  show ?thesis using shell_commands_only_print [OF _ e] e by simp
qed

text \<open>C36: \<^verbatim>\<open>echo\<close> repeats the rest of the line for every argument: each argument is printed from its
  first character to the end of the line, since \<^verbatim>\<open>argv\<close> points into the unsplit line.\<close>

theorem echo_prints_tails:
  assumes "vga_ok k" and "line = map of_char ''echo'' @ rest" and "length (c_text line) \<le> 255"
    and "length (line_words line) < 16"
  shows "\<exists>k'. shell_execute line argv k = Some (0, Returned k')
    \<and> screen_of (vga_state k') = fold (term_put white) (echo_output line (tl (line_words line))) (screen_of (vga_state k))"
proof -
  obtain ws where ws: "line_words line = 0 # ws" "line ! 0 = 0x65"
    using line_words_prefix [of "0x65" "map of_char ''cho'' @ rest"] assms(2) by (auto simp: blank_def)
  show ?thesis
  proof (rule execute_cases [OF assms(3), of argv k])
    fix c args
    assume f: "find_command (line ! (line_words line ! 0)) = Some c"
      and e: "shell_execute line argv k = Some (0, run_command c (length (line_words line)) args k)"
      and a: "\<And>i. i < length (line_words line) \<Longrightarrow> args i = Some (drop (line_words line ! i) line)"
    have "c = Cmd_echo" using f ws by (simp add: find_command_table)
    moreover have "args (1 + i) = Some (drop (ws ! i) line)" if "i < length ws" for i
      using a [of "Suc i"] that ws by simp
    then have "screen_of (vga_state (cmd_echo (1 + length ws) args k)) =
        fold (term_put white) (echo_output line ws) (screen_of (vga_state k))"
      unfolding cmd_echo_def using assms(1) by (intro echo_loop_screen) simp_all
    ultimately show ?thesis using e ws by (simp add: run_command_def)
  qed (use assms(4) ws in \<open>simp_all add: find_command_table\<close>)
qed

theorem echo_prints_tails_witness:
  "\<exists>k'. shell_execute (map of_char ''echo a b'') (\<lambda>_. 0) (vga_clear (boot_kernel (\<lambda>_. 0) (\<lambda>_. 0) (\<lambda>_ _. 0))) = Some (0, Returned k')
    \<and> screen_of (vga_state k') = fold (term_put white) (map of_char (''a b b'' @ nl)) (replicate 2000 vga_blank, 0)"
proof -
  have w: "line_words (map of_char ''echo a b'') = [0, 5, 7]" by code_simp
  show ?thesis
    using echo_prints_tails [OF vga_clear_screen(2), of "map of_char ''echo a b''" "map of_char '' a b''" "\<lambda>_. 0"
      "boot_kernel (\<lambda>_. 0) (\<lambda>_. 0) (\<lambda>_ _. 0)"] w vga_clear_screen(1) by simp
qed



end
