(* ===== verification/Kernel.thy ===== *)
theory Kernel
  imports Heap Vmm Gdt Serial Scheduler Shell
begin

text \<open>
  The start of the kernel, \<^verbatim>\<open>src/kernel/kernel.c\<close>: \<^verbatim>\<open>kmain\<close> initialises the components one after the
  other, stops at the first that reports failure, enables interrupts and enters the shell. This theory
  goes up to the call of the shell; the whole of \<^verbatim>\<open>kmain\<close> is in \<open>Session\<close>.

  The processor starts with paging off. Memory is indexed by the addresses the code uses, so turning
  paging on, at the end of \<^verbatim>\<open>vmm_init\<close>, changes what the memory shows at an address: \<open>paging_view\<close>
  re-reads it through the new translation. Afterwards the two windows of \<^verbatim>\<open>vmm_init\<close> show the same
  physical memory; that a later write through one of them is seen in the other is not modelled.
\<close>

section \<open>The code\<close>

definition KERNEL_VERSION :: string where "KERNEL_VERSION = ''1.0''"
definition KERNEL_BUILD_DATE :: string where "KERNEL_BUILD_DATE = ''2026-01-15''"
definition KERNEL_ARCH :: string where "KERNEL_ARCH = ''x86 (i686)''"

definition print_banner :: "kernel \<Rightarrow> kernel" where
  "print_banner k =
     (let k = vga_putstr (lit (replicate 37 CHR ''='' @ nl)) green k;
          k = vga_putstr (lit (''  NIMBU OS - Minimal Linux Kernel'' @ nl)) green k;
          k = vga_putstr (lit ''  Version: '') green k;
          k = vga_putstr (lit KERNEL_VERSION) yellow k;
          k = vga_putstr (lit (nl @ ''  Build: '')) green k;
          k = vga_putstr (lit KERNEL_BUILD_DATE) yellow k;
          k = vga_putstr (lit nl) green k;
          k = vga_putstr (lit ''  Architecture: '') green k;
          k = vga_putstr (lit KERNEL_ARCH) yellow k
      in vga_putstr (lit (nl @ replicate 37 CHR ''='' @ nl @ nl)) green k)"

text \<open>\<^verbatim>\<open>print_init_status\<close> is called nowhere.\<close>

definition print_init_status :: "c_string \<Rightarrow> int \<Rightarrow> kernel \<Rightarrow> kernel" where
  "print_init_status message status k =
     (let k = vga_putstr (lit ''['') white k;
          k = (if status \<noteq> 0 then vga_putstr (lit ''OK'') green k else vga_putstr (lit ''FAIL'') red k);
          k = vga_putstr (lit ''] '') white k;
          k = vga_putstr message cyan k
      in vga_putstr (lit nl) white k)"

text \<open>The write of \<^verbatim>\<open>CR0\<close> as memory sees it.\<close>

definition paging_view :: "kernel \<Rightarrow> kernel" where
  "paging_view k = k\<lparr>mem := (\<lambda>a. case mmu_translate k a of Some p \<Rightarrow> mem k p | None \<Rightarrow> mem k a)\<rparr>"

definition vmm_start :: "layout \<Rightarrow> kernel \<Rightarrow> int \<times> kernel" where
  "vmm_start L k = (fst (vmm_init L k), paging_view (snd (vmm_init L k)))"

text \<open>The ten blocks of \<^verbatim>\<open>kmain\<close>, each a message and an initialisation; an undefined result of one
  is \<open>None\<close>.\<close>

definition boot_steps :: "layout \<Rightarrow> (string \<times> (kernel \<Rightarrow> (int \<times> kernel) option)) list" where
  "boot_steps L =
     [(''Initializing GDT...'', \<lambda>k. Some (gdt_init L k)),
      (''Initializing IDT...'', \<lambda>k. Some (idt_init L k)),
      (''Initializing PMM (128 MB)...'', \<lambda>k. Some (pmm_init (128 * 1024 * 1024) k)),
      (''Initializing VMM with paging...'', \<lambda>k. Some (vmm_start L k)),
      (''Initializing kernel heap...'', \<lambda>k. Some (heap_init (KERNEL_VIRT_BASE + 0x100000) (8 * 1024 * 1024) k)),
      (''Initializing process management...'', \<lambda>k. Some (proc_init k)),
      (''Initializing scheduler (100 Hz)...'', scheduler_init),
      (''Initializing keyboard driver...'', kbd_init),
      (''Initializing serial driver...'', \<lambda>k. Some (serial_init k)),
      (''Initializing shell...'', \<lambda>k. Some (shell_init k))]"

text \<open>Running the blocks: a nonzero result goes on, zero goes to \<^verbatim>\<open>halt\<close>.\<close>

fun run_boot :: "(string \<times> (kernel \<Rightarrow> (int \<times> kernel) option)) list \<Rightarrow> kernel \<Rightarrow> (bool \<times> kernel) option" where
  "run_boot [] k = Some (True, k)"
| "run_boot ((message, init) # steps) k =
     (case init (vga_putstr (lit message) cyan k) of
        None \<Rightarrow> None
      | Some rk \<Rightarrow>
          if fst rk \<noteq> 0 then run_boot steps (vga_putstr (lit ('' OK'' @ nl)) green (snd rk))
          else Some (False, vga_putstr (lit ('' FAIL'' @ nl)) red (snd rk)))"

definition kernel_panic :: "kernel \<Rightarrow> kernel" where
  "kernel_panic k =
     (let k = vga_putstr (lit (nl @ nl @ ''*** KERNEL PANIC ***'' @ nl)) red k;
          k = vga_putstr (lit (''Halting system...'' @ nl)) red k
      in interrupts_disable k)"

text \<open>\<^verbatim>\<open>kmain\<close> up to the call of the shell: whether it gets there, and the state.\<close>

definition boot :: "layout \<Rightarrow> kernel \<Rightarrow> (bool \<times> kernel) option" where
  "boot L k =
     (let k = snd (vga_init k);
          k = print_banner k
      in case run_boot (boot_steps L) k of
           None \<Rightarrow> None
         | Some rk \<Rightarrow>
             if fst rk
             then let k = vga_putstr (lit (nl @ ''Enabling interrupts and starting shell...'' @ nl @ nl)) green (snd rk)
                  in Some (True, interrupts_enable k)
             else Some (False, snd rk))"

text \<open>In \<open>boot\<close> the segment loads of \<^verbatim>\<open>gdt_flush_asm\<close> succeed, as its author means them to. \<open>boot_on checks\<close>
  says what the processor makes of them: one that checks the descriptors raises a fault in the first block,
  before the handler table exists, unless they pass. \<open>Inl\<close> is an end of the machine on the way.\<close>

definition boot_on :: "bool \<Rightarrow> layout \<Rightarrow> kernel \<Rightarrow> machine_end + bool \<times> kernel" where
  "boot_on checks L k =
     (let goes_on = (case boot L k of None \<Rightarrow> Inl Undefined | Some r \<Rightarrow> Inr r)
      in case gdt_init_checked L (vga_putstr (lit ''Initializing GDT...'') cyan (print_banner (snd (vga_init k)))) of
           Inl f \<Rightarrow> if checks then Inl (Faulted f) else goes_on
         | Inr _ \<Rightarrow> goes_on)"

section \<open>What every initialisation leaves alone\<close>

lemma gdt_init_frame [simp]:
  "mem (snd (gdt_init L k)) = mem k"
  "cr0 (snd (gdt_init L k)) = cr0 k"
  "cr3 (snd (gdt_init L k)) = cr3 k"
  "interrupt_handlers (snd (gdt_init L k)) = interrupt_handlers k"
  "idt (snd (gdt_init L k)) = idt k"
  "heap_state (snd (gdt_init L k)) = heap_state k"
  "pmm_state (snd (gdt_init L k)) = pmm_state k"
  "kbd_state (snd (gdt_init L k)) = kbd_state k"
  "process_table (snd (gdt_init L k)) = process_table k"
  "current_process (snd (gdt_init L k)) = current_process k"
  "current_pid (snd (gdt_init L k)) = current_pid k"
  "next_pid (snd (gdt_init L k)) = next_pid k"
  "int_flag (snd (gdt_init L k)) = int_flag k"
  "vga_state (snd (gdt_init L k)) = vga_state k"
  "port_in (snd (gdt_init L k)) = port_in k"
  "in_count (snd (gdt_init L k)) = in_count k"
  by (simp_all add: gdt_init_def gdt_fill_def gdt_set_entry_def gdt_flush_asm_def Let_def)

lemma idt_fill_form: "\<exists>t. idt_fill L k = k\<lparr>idt := t\<rparr>"
proof -
  have "\<exists>t. fold (\<lambda>i. idt_set_entry (f i) (g i) s b) xs k = k\<lparr>idt := t\<rparr>" for f g s b k and xs :: "nat list"
  proof (induction xs arbitrary: k)
    case Nil
    then show ?case by (intro exI [of _ "idt k"]) simp
  next
    case (Cons x xs)
    then obtain t where "fold (\<lambda>i. idt_set_entry (f i) (g i) s b) xs (idt_set_entry (f x) (g x) s b k) =
        (idt_set_entry (f x) (g x) s b k)\<lparr>idt := t\<rparr>" by blast
    moreover have "\<exists>t'. idt_set_entry (f x) (g x) s b k = k\<lparr>idt := t'\<rparr>" by (auto simp: idt_set_entry_def)
    ultimately show ?case by (intro exI [of _ t]) auto
  qed
  note fill = this
  obtain t1 where t1: "fold (\<lambda>i. idt_set_entry (of_nat i) (isr_stub L i) 0x08 0x8E) [0..<20] k = k\<lparr>idt := t1\<rparr>"
    using fill [of "\<lambda>i. of_nat i" "isr_stub L" "0x08" "0x8E" "[0..<20]" k] by blast
  obtain t2 where "fold (\<lambda>i. idt_set_entry (of_nat (32 + i)) (irq_stub L i) 0x08 0x8E) [0..<16] (k\<lparr>idt := t1\<rparr>) =
      (k\<lparr>idt := t1\<rparr>)\<lparr>idt := t2\<rparr>"
    using fill [of "\<lambda>i. of_nat (32 + i)" "irq_stub L" "0x08" "0x8E" "[0..<16]" "k\<lparr>idt := t1\<rparr>"] by blast
  then show ?thesis unfolding idt_fill_def Let_def t1 by (intro exI [of _ t2]) simp
qed

lemma idt_init_frame [simp]:
  "mem (snd (idt_init L k)) = mem k"
  "cr0 (snd (idt_init L k)) = cr0 k"
  "cr3 (snd (idt_init L k)) = cr3 k"
  "heap_state (snd (idt_init L k)) = heap_state k"
  "pmm_state (snd (idt_init L k)) = pmm_state k"
  "kbd_state (snd (idt_init L k)) = kbd_state k"
  "process_table (snd (idt_init L k)) = process_table k"
  "current_process (snd (idt_init L k)) = current_process k"
  "current_pid (snd (idt_init L k)) = current_pid k"
  "next_pid (snd (idt_init L k)) = next_pid k"
  "int_flag (snd (idt_init L k)) = int_flag k"
  "vga_state (snd (idt_init L k)) = vga_state k"
  "port_in (snd (idt_init L k)) = port_in k"
  "in_count (snd (idt_init L k)) = in_count k"
proof -
  let ?k = "k\<lparr>idt_ptr := \<lparr>ptr_limit = 2047, ptr_base = idt_addr L\<rparr>,
    interrupt_handlers := fold (\<lambda>i hs. hs[i := Isr_default_handler]) [0..<256] (interrupt_handlers k)\<rparr>"
  obtain t where t: "idt_fill L ?k = ?k\<lparr>idt := t\<rparr>" using idt_fill_form by blast
  show
    "mem (snd (idt_init L k)) = mem k"
    "cr0 (snd (idt_init L k)) = cr0 k"
    "cr3 (snd (idt_init L k)) = cr3 k"
    "heap_state (snd (idt_init L k)) = heap_state k"
    "pmm_state (snd (idt_init L k)) = pmm_state k"
    "kbd_state (snd (idt_init L k)) = kbd_state k"
    "process_table (snd (idt_init L k)) = process_table k"
    "current_process (snd (idt_init L k)) = current_process k"
    "current_pid (snd (idt_init L k)) = current_pid k"
    "next_pid (snd (idt_init L k)) = next_pid k"
    "int_flag (snd (idt_init L k)) = int_flag k"
    "vga_state (snd (idt_init L k)) = vga_state k"
    "port_in (snd (idt_init L k)) = port_in k"
    "in_count (snd (idt_init L k)) = in_count k"
    using t by (simp_all add: idt_init_def Let_def pic_init_def outb_def del: upt_rec_numeral)
qed

lemma pmm_init_frame [simp]:
  "cr0 (snd (pmm_init n k)) = cr0 k"
  "cr3 (snd (pmm_init n k)) = cr3 k"
  "interrupt_handlers (snd (pmm_init n k)) = interrupt_handlers k"
  "idt (snd (pmm_init n k)) = idt k"
  "heap_state (snd (pmm_init n k)) = heap_state k"
  "kbd_state (snd (pmm_init n k)) = kbd_state k"
  "process_table (snd (pmm_init n k)) = process_table k"
  "current_process (snd (pmm_init n k)) = current_process k"
  "current_pid (snd (pmm_init n k)) = current_pid k"
  "next_pid (snd (pmm_init n k)) = next_pid k"
  "int_flag (snd (pmm_init n k)) = int_flag k"
  "vga_state (snd (pmm_init n k)) = vga_state k"
  "port_in (snd (pmm_init n k)) = port_in k"
  "in_count (snd (pmm_init n k)) = in_count k"
  by (simp_all add: pmm_init_def Let_def)

lemma vmm_start_frame [simp]:
  "interrupt_handlers (snd (vmm_start L k)) = interrupt_handlers k"
  "idt (snd (vmm_start L k)) = idt k"
  "heap_state (snd (vmm_start L k)) = heap_state k"
  "pmm_state (snd (vmm_start L k)) = pmm_state k"
  "kbd_state (snd (vmm_start L k)) = kbd_state k"
  "process_table (snd (vmm_start L k)) = process_table k"
  "current_process (snd (vmm_start L k)) = current_process k"
  "current_pid (snd (vmm_start L k)) = current_pid k"
  "next_pid (snd (vmm_start L k)) = next_pid k"
  "int_flag (snd (vmm_start L k)) = int_flag k"
  "vga_state (snd (vmm_start L k)) = vga_state k"
  "port_in (snd (vmm_start L k)) = port_in k"
  "in_count (snd (vmm_start L k)) = in_count k"
  by (simp_all add: vmm_start_def paging_view_def vmm_init_def Let_def)

lemma heap_init_frame [simp]:
  "mem (snd (heap_init s n k)) = mem k"
  "cr0 (snd (heap_init s n k)) = cr0 k"
  "cr3 (snd (heap_init s n k)) = cr3 k"
  "interrupt_handlers (snd (heap_init s n k)) = interrupt_handlers k"
  "idt (snd (heap_init s n k)) = idt k"
  "pmm_state (snd (heap_init s n k)) = pmm_state k"
  "kbd_state (snd (heap_init s n k)) = kbd_state k"
  "process_table (snd (heap_init s n k)) = process_table k"
  "current_process (snd (heap_init s n k)) = current_process k"
  "current_pid (snd (heap_init s n k)) = current_pid k"
  "next_pid (snd (heap_init s n k)) = next_pid k"
  "int_flag (snd (heap_init s n k)) = int_flag k"
  "vga_state (snd (heap_init s n k)) = vga_state k"
  "port_in (snd (heap_init s n k)) = port_in k"
  "in_count (snd (heap_init s n k)) = in_count k"
  by (simp_all add: heap_init_def)

lemma proc_init_frame [simp]:
  "mem (snd (proc_init k)) = mem k"
  "cr0 (snd (proc_init k)) = cr0 k"
  "cr3 (snd (proc_init k)) = cr3 k"
  "interrupt_handlers (snd (proc_init k)) = interrupt_handlers k"
  "idt (snd (proc_init k)) = idt k"
  "heap_state (snd (proc_init k)) = heap_state k"
  "pmm_state (snd (proc_init k)) = pmm_state k"
  "kbd_state (snd (proc_init k)) = kbd_state k"
  "next_pid (snd (proc_init k)) = next_pid k"
  "int_flag (snd (proc_init k)) = int_flag k"
  "vga_state (snd (proc_init k)) = vga_state k"
  "port_in (snd (proc_init k)) = port_in k"
  "in_count (snd (proc_init k)) = in_count k"
  using proc_init_rest [of k] by auto

lemma irq_enable_low:
  "irq < 8 \<Longrightarrow> irq_enable irq k =
     Some (k\<lparr>in_count := (in_count k)(0x21 := Suc (in_count k 0x21)),
             port_out := port_out k @ [(0x21, port_in k 0x21 (in_count k 0x21)
               AND NOT (ucast (push_bit (unat irq) (1 :: u32))))]\<rparr>)"
  by (auto simp: irq_enable_def irq_port_def inb_def outb_def Let_def word_less_nat_alt word_le_nat_alt)

lemma register_handler:
  "snd (idt_register_handler v h k) = k\<lparr>interrupt_handlers := (interrupt_handlers k)[unat v := h]\<rparr>"
proof -
  have "unat v < 256" using unsigned_less [of v] by simp
  then show ?thesis by (simp add: idt_register_handler_def)
qed

lemma scheduler_init_frame:
  "scheduler_init k = Some (1, snd (the (scheduler_init k)))"
  "p \<noteq> 0x21 \<Longrightarrow> in_count (snd (the (scheduler_init k))) p = in_count k p"
  "interrupt_handlers (snd (the (scheduler_init k))) = (interrupt_handlers k)[32 := Scheduler_tick]"
  "mem (snd (the (scheduler_init k))) = mem k"
  "cr0 (snd (the (scheduler_init k))) = cr0 k"
  "cr3 (snd (the (scheduler_init k))) = cr3 k"
  "idt (snd (the (scheduler_init k))) = idt k"
  "heap_state (snd (the (scheduler_init k))) = heap_state k"
  "pmm_state (snd (the (scheduler_init k))) = pmm_state k"
  "kbd_state (snd (the (scheduler_init k))) = kbd_state k"
  "process_table (snd (the (scheduler_init k))) = process_table k"
  "current_process (snd (the (scheduler_init k))) = current_process k"
  "current_pid (snd (the (scheduler_init k))) = current_pid k"
  "next_pid (snd (the (scheduler_init k))) = next_pid k"
  "int_flag (snd (the (scheduler_init k))) = int_flag k"
  "vga_state (snd (the (scheduler_init k))) = vga_state k"
  "port_in (snd (the (scheduler_init k))) = port_in k"
  by (simp_all add: scheduler_init_def irq_enable_low register_handler outb_def Let_def)

lemma kbd_init_frame:
  "kbd_init k = Some (1, snd (the (kbd_init k)))"
  "p \<noteq> 0x21 \<Longrightarrow> in_count (snd (the (kbd_init k))) p = in_count k p"
  "interrupt_handlers (snd (the (kbd_init k))) = (interrupt_handlers k)[33 := Kbd_interrupt_handler]"
  "kbd_state (snd (the (kbd_init k))) = (kbd_state k)\<lparr>kbd_head := 0, kbd_tail := 0, shift_pressed := 0, ctrl_pressed := 0\<rparr>"
  "mem (snd (the (kbd_init k))) = mem k"
  "cr0 (snd (the (kbd_init k))) = cr0 k"
  "cr3 (snd (the (kbd_init k))) = cr3 k"
  "idt (snd (the (kbd_init k))) = idt k"
  "heap_state (snd (the (kbd_init k))) = heap_state k"
  "pmm_state (snd (the (kbd_init k))) = pmm_state k"
  "process_table (snd (the (kbd_init k))) = process_table k"
  "current_process (snd (the (kbd_init k))) = current_process k"
  "current_pid (snd (the (kbd_init k))) = current_pid k"
  "next_pid (snd (the (kbd_init k))) = next_pid k"
  "int_flag (snd (the (kbd_init k))) = int_flag k"
  "vga_state (snd (the (kbd_init k))) = vga_state k"
  "port_in (snd (the (kbd_init k))) = port_in k"
  by (simp_all add: kbd_init_def irq_enable_low register_handler Let_def)

lemma serial_init_frame [simp]:
  "mem (snd (serial_init k)) = mem k"
  "cr0 (snd (serial_init k)) = cr0 k"
  "cr3 (snd (serial_init k)) = cr3 k"
  "interrupt_handlers (snd (serial_init k)) = interrupt_handlers k"
  "idt (snd (serial_init k)) = idt k"
  "heap_state (snd (serial_init k)) = heap_state k"
  "pmm_state (snd (serial_init k)) = pmm_state k"
  "kbd_state (snd (serial_init k)) = kbd_state k"
  "process_table (snd (serial_init k)) = process_table k"
  "current_process (snd (serial_init k)) = current_process k"
  "current_pid (snd (serial_init k)) = current_pid k"
  "next_pid (snd (serial_init k)) = next_pid k"
  "int_flag (snd (serial_init k)) = int_flag k"
  "vga_state (snd (serial_init k)) = vga_state k"
  "port_in (snd (serial_init k)) = port_in k"
  "in_count (snd (serial_init k)) = in_count k"
  by (simp_all add: serial_init_def outb_def Let_def)

lemma shell_init_frame [simp]:
  "mem (snd (shell_init k)) = mem k"
  "cr0 (snd (shell_init k)) = cr0 k"
  "cr3 (snd (shell_init k)) = cr3 k"
  "interrupt_handlers (snd (shell_init k)) = interrupt_handlers k"
  "idt (snd (shell_init k)) = idt k"
  "heap_state (snd (shell_init k)) = heap_state k"
  "pmm_state (snd (shell_init k)) = pmm_state k"
  "kbd_state (snd (shell_init k)) = kbd_state k"
  "process_table (snd (shell_init k)) = process_table k"
  "current_process (snd (shell_init k)) = current_process k"
  "current_pid (snd (shell_init k)) = current_pid k"
  "next_pid (snd (shell_init k)) = next_pid k"
  "int_flag (snd (shell_init k)) = int_flag k"
  "port_in (snd (shell_init k)) = port_in k"
  "in_count (snd (shell_init k)) = in_count k"
  by (simp_all add: shell_init_def)

lemma print_banner_frame [simp]:
  "mem (print_banner k) = mem k"
  "cr0 (print_banner k) = cr0 k"
  "cr3 (print_banner k) = cr3 k"
  "interrupt_handlers (print_banner k) = interrupt_handlers k"
  "idt (print_banner k) = idt k"
  "heap_state (print_banner k) = heap_state k"
  "pmm_state (print_banner k) = pmm_state k"
  "kbd_state (print_banner k) = kbd_state k"
  "process_table (print_banner k) = process_table k"
  "current_process (print_banner k) = current_process k"
  "current_pid (print_banner k) = current_pid k"
  "next_pid (print_banner k) = next_pid k"
  "int_flag (print_banner k) = int_flag k"
  "port_in (print_banner k) = port_in k"
  "in_count (print_banner k) = in_count k"
  by (simp_all add: print_banner_def Let_def)

text \<open>What each of them sends to the interrupt controllers.\<close>

lemma init_pic_writes [simp]:
  "pic_writes (snd (gdt_init L k)) = pic_writes k"
  "pic_writes (snd (pmm_init n k)) = pic_writes k"
  "pic_writes (snd (vmm_start L k)) = pic_writes k"
  "pic_writes (snd (heap_init s n k)) = pic_writes k"
  "pic_writes (snd (proc_init k)) = pic_writes k"
  "pic_writes (snd (serial_init k)) = pic_writes k"
  "pic_writes (snd (shell_init k)) = pic_writes k"
  "pic_writes (print_banner k) = pic_writes k"
proof -
  show "pic_writes (snd (gdt_init L k)) = pic_writes k"
    by (rule pic_writes_cong) (simp add: gdt_init_def gdt_fill_def gdt_set_entry_def gdt_flush_asm_def Let_def)
  show "pic_writes (snd (pmm_init n k)) = pic_writes k" by (rule pic_writes_cong) (simp add: pmm_init_def Let_def)
  show "pic_writes (snd (vmm_start L k)) = pic_writes k"
    by (rule pic_writes_cong) (simp add: vmm_start_def paging_view_def vmm_init_def Let_def)
  show "pic_writes (snd (heap_init s n k)) = pic_writes k" by (rule pic_writes_cong) (simp add: heap_init_def)
  show "pic_writes (snd (proc_init k)) = pic_writes k" using proc_init_rest [of k] by (intro pic_writes_cong) auto
  show "pic_writes (snd (serial_init k)) = pic_writes k" by (simp add: serial_init_def Let_def pic_writes_outb uart_defs)
  show "pic_writes (snd (shell_init k)) = pic_writes k" "pic_writes (print_banner k) = pic_writes k"
    by (simp_all add: shell_init_def print_banner_def Let_def)
qed

lemma idt_init_pic_writes: "pic_writes (snd (idt_init L k)) = pic_writes (pic_init k)"
proof -
  let ?k = "k\<lparr>idt_ptr := \<lparr>ptr_limit = 2047, ptr_base = idt_addr L\<rparr>,
    interrupt_handlers := fold (\<lambda>i hs. hs[i := Isr_default_handler]) [0..<256] (interrupt_handlers k)\<rparr>"
  obtain t where t: "idt_fill L ?k = ?k\<lparr>idt := t\<rparr>" using idt_fill_form by blast
  show ?thesis by (rule pic_writes_cong) (use t in \<open>simp add: idt_init_def Let_def pic_init_def outb_def del: upt_rec_numeral\<close>)
qed

lemma irq_init_pic_writes:
  "pic_writes (snd (the (scheduler_init k))) = pic_writes k @ [(0x21, port_in k 0x21 (in_count k 0x21) AND NOT 1)]"
  "in_count (snd (the (scheduler_init k))) 0x21 = Suc (in_count k 0x21)"
  "pic_writes (snd (the (kbd_init k))) = pic_writes k @ [(0x21, port_in k 0x21 (in_count k 0x21) AND NOT 2)]"
  by (simp_all add: scheduler_init_def kbd_init_def irq_enable_low register_handler PIT_PORT_CMD_def PIT_PORT_DATA_def
      outb_def Let_def pic_writes_def)

section \<open>The memory after paging is on\<close>

text \<open>A kernel image that ends below 2 MB, where the code puts the bitmap of the physical allocator.\<close>

definition image_layout :: "layout \<Rightarrow> bool" where
  "image_layout L \<longleftrightarrow> vmm_layout L \<and> unat (kernel_page_directory L) + 4096 \<le> 0x200000
     \<and> unat (kernel_page_tables L) + 16384 \<le> 0x200000"

lemma image_layout_vmm [simp]: "image_layout L \<Longrightarrow> vmm_layout L"
  by (simp add: image_layout_def)

lemma low_cell_cong:
  assumes "\<And>a. a < 0x200000 \<Longrightarrow> m a = m' a" and "t mod 4096 = 0" and "t < 0x200000" and "i < 1024"
  shows "load32 m (t + 4 * i) = load32 m' (t + 4 * i)"
proof (rule load32_cong)
  fix d :: u32
  assume "d < 4"
  then have d: "unat d < 4" by (simp add: word_less_nat_alt)
  obtain x where x: "unat t = 4096 * x" using assms(2) by (rule page_aligned_cases)
  then have "x < 512" using assms(3) by (simp add: word_less_nat_alt)
  moreover have "unat i < 1024" using assms(4) by (simp add: word_less_nat_alt)
  ultimately have b: "unat (t + 4 * i) + unat d < 0x200000"
    using d x by (simp add: cell_unat [OF assms(2,4)])
  then have "unat (t + 4 * i + d) = unat (t + 4 * i) + unat d" by (simp add: unat_word_ariths)
  then show "m (t + 4 * i + d) = m' (t + 4 * i + d)" using b assms(1) by (simp add: word_less_nat_alt)
qed

lemma image_dir_low:
  "image_layout L \<Longrightarrow> kernel_page_directory L < 0x200000 \<and> kernel_page_directory L mod 4096 = 0"
  by (auto simp: image_layout_def vmm_layout_def word_less_nat_alt)

lemma image_row_low:
  assumes "image_layout L" and "n < 4"
  shows "pt_cell L (of_nat n) 0 < 0x200000 \<and> pt_cell L (of_nat n) 0 mod 4096 = 0"
proof -
  have "4096 * n \<le> 12288" using assms(2) by simp
  moreover from this have "unat (kernel_page_tables L) + 4096 * n < 0x200000"
    using assms(1) by (simp add: image_layout_def)
  moreover obtain x where "unat (kernel_page_tables L) = 4096 * x"
    using page_aligned_cases [of "kernel_page_tables L"] assms(1) by (auto simp: image_layout_def vmm_layout_def)
  ultimately show ?thesis
    by (simp add: pt_cell_def unat_word_ariths unat_of_nat word_less_nat_alt word_unat_eq_iff unat_mod)
qed

text \<open>The translation depends on memory below 2 MB only.\<close>

lemma tables_low:
  assumes "image_layout L" and "cr3 K = kernel_page_directory L"
    and "\<And>a. a < 0x200000 \<Longrightarrow> mem K a = mem (snd (vmm_init L k)) a"
  shows "vmm_ok L K" and "mmu_translate K v = mmu_translate (snd (vmm_init L k)) v"
proof -
  let ?I = "snd (vmm_init L k)"
  have d: "load32 (mem K) (pd_cell L i) = load32 (mem ?I) (pd_cell L i)" if "i < 1024" for i
    unfolding pd_cell_def using low_cell_cong [OF assms(3)] image_dir_low [OF assms(1)] that by simp
  have I: "vmm_ok L ?I" using assms(1) by (simp add: vmm_init_ok)
  show ok: "vmm_ok L K" using I assms(2) d by (simp add: vmm_ok_def)
  have s: "vmm_slot L K v = vmm_slot L ?I v" using d [OF pd_index_less] by (simp add: vmm_slot_def)
  have c: "load32 (mem K) (pt_cell L (of_nat (unat (drop_bit 22 v) mod 4)) 0 + 4 * (drop_bit 12 v AND 0x3FF)) =
      load32 (mem ?I) (pt_cell L (of_nat (unat (drop_bit 22 v) mod 4)) 0 + 4 * (drop_bit 12 v AND 0x3FF))"
    by (rule low_cell_cong [OF assms(3)]) (use image_row_low [OF assms(1), of "unat (drop_bit 22 v) mod 4"] pt_index_less in auto)
  then have e: "load32 (mem K) a = load32 (mem ?I) a" if "vmm_slot L ?I v = Some a" for a
    using that unfolding vmm_init_slot [OF image_layout_vmm [OF assms(1)]] by (metis option.discI option.inject)
  show "mmu_translate K v = mmu_translate ?I v"
    unfolding mmu_slot [OF ok] mmu_slot [OF I] slot_translate_def s by (auto split: option.split simp: e)
qed

lemma vmm_start_mem:
  assumes "vmm_layout L"
  shows "mem (snd (vmm_start L k)) a = mem (snd (vmm_init L k)) (if 0xC0000000 \<le> a \<and> a < 0xC1000000 then a - 0xC0000000 else a)"
proof -
  have "\<not> (0xC0000000 \<le> a \<and> a < 0x1000000)" by (auto simp: word_le_nat_alt word_less_nat_alt)
  then show ?thesis using vmm_init_walk [OF assms, of k a] by (auto simp: vmm_start_def paging_view_def split: if_splits)
qed

lemma vmm_start_regs:
  "fst (vmm_start L k) = 1" "cr3 (snd (vmm_start L k)) = kernel_page_directory L" "bit (cr0 (snd (vmm_start L k))) 31"
  by (simp_all add: vmm_start_def paging_view_def vmm_init_mem bit_or_iff)

lemma vmm_start_bitmap:
  assumes "image_layout L" and "i < 4096"
  shows "mem (snd (vmm_start L k)) (0xC0200000 + of_nat i) = mem k (0x200000 + of_nat i)"
proof -
  have u: "unat (0xC0200000 + of_nat i :: u32) = 0xC0200000 + i" "unat (0x200000 + of_nat i :: u32) = 0x200000 + i"
    using assms(2) by (simp_all add: unat_word_ariths unat_of_nat)
  have "\<not> in_tables L (0x200000 + of_nat i)"
    using assms by (auto simp: image_layout_def in_tables_def word_less_nat_alt unat_sub_if_size size_word_def u)
  then show ?thesis
    using assms by (simp add: vmm_start_mem vmm_init_writes word_le_nat_alt word_less_nat_alt u)
qed

section \<open>The start of the kernel\<close>

lemma init_results:
  "fst (gdt_init L k) = 1" "fst (idt_init L k) = 1" "fst (heap_init s n k) = 1" "fst (proc_init k) = 1"
  "fst (serial_init k) = 1" "fst (shell_init k) = 1"
  by (simp_all add: gdt_init_def idt_init_def heap_init_def proc_init_def serial_init_def shell_init_def Let_def)

lemma init_screen [simp]:
  "vga_ok (snd (gdt_init L k)) = vga_ok k" "vga_ok (snd (idt_init L k)) = vga_ok k"
  "vga_ok (snd (pmm_init n k)) = vga_ok k" "vga_ok (snd (vmm_start L k)) = vga_ok k"
  "vga_ok (snd (heap_init s n k)) = vga_ok k" "vga_ok (snd (proc_init k)) = vga_ok k"
  "vga_ok (snd (the (scheduler_init k))) = vga_ok k" "vga_ok (snd (the (kbd_init k))) = vga_ok k"
  "vga_ok (snd (serial_init k)) = vga_ok k"
  by (simp_all add: vga_ok_def scheduler_init_frame(2-) kbd_init_frame(2-))

lemma shell_init_ok: "vga_ok k \<Longrightarrow> vga_ok (snd (shell_init k))"
  by (simp add: shell_init_def)

lemma print_banner_ok: "vga_ok k \<Longrightarrow> vga_ok (print_banner k)"
  by (simp add: print_banner_def Let_def)

text \<open>The ten steps, first the tables and memory, then processes and devices.\<close>

lemma run_boot_append:
  "run_boot xs k = Some (True, k') \<Longrightarrow> run_boot (xs @ ys) k = run_boot ys k'"
  by (induction xs k rule: run_boot.induct) (auto split: option.splits if_splits)

lemma boot_memory_run:
  assumes "vga_ok k" and "length (interrupt_handlers k) = 256" and "length (idt k) = 256"
  obtains K where "run_boot (take 5 (boot_steps L)) k = Some (True, K)" and "vga_ok K"
    and "interrupt_handlers K = (replicate 256 Isr_default_handler)[14 := Isr_page_fault_handler]"
    and "\<And>v. v < 256 \<Longrightarrow> if v < 20 then kernel_gate (isr_stub L v) (idt K ! v)
      else if 32 \<le> v \<and> v < 48 then kernel_gate (irq_stub L (v - 32)) (idt K ! v) else idt K ! v = idt k ! v"
    and "pic_writes K = pic_writes (pic_init k)"
    and "heap_state K = \<lparr>heap_start = 0xC0100000, heap_size = 0x800000, heap_used = 0\<rparr>"
    and "pmm_state K = pmm_state (snd (pmm_init 0x8000000 k))"
    and "kbd_state K = kbd_state k" and "process_table K = process_table k" and "next_pid K = next_pid k"
    and "cr3 K = kernel_page_directory L" and "bit (cr0 K) 31" and "port_in K = port_in k" and "in_count K = in_count k"
    and "\<exists>k'. mem k' = mem (snd (pmm_init 0x8000000 k)) \<and> mem K = mem (snd (vmm_start L k'))"
proof -
  let ?ok = "vga_putstr (lit ('' OK'' @ nl)) green"
  let ?m = "\<lambda>s. vga_putstr (lit s) cyan"
  define k1 where "k1 = ?ok (snd (gdt_init L (?m ''Initializing GDT...'' k)))"
  define k2 where "k2 = ?ok (snd (idt_init L (?m ''Initializing IDT...'' k1)))"
  define k3 where "k3 = ?ok (snd (pmm_init (128 * 1024 * 1024) (?m ''Initializing PMM (128 MB)...'' k2)))"
  define k4 where "k4 = ?ok (snd (vmm_start L (?m ''Initializing VMM with paging...'' k3)))"
  define K where "K = ?ok (snd (heap_init (KERNEL_VIRT_BASE + 0x100000) (8 * 1024 * 1024)
    (?m ''Initializing kernel heap...'' k4)))"
  note defs = k1_def k2_def k3_def k4_def K_def
  have run: "run_boot (take 5 (boot_steps L)) k = Some (True, K)"
    by (simp add: boot_steps_def run_boot.simps init_results vmm_start_regs(1) defs)
  let ?q = "?m ''Initializing IDT...'' k1"
  have q: "length (idt ?q) = 256" "length (interrupt_handlers ?q) = 256" "idt ?q = idt k"
    using assms(2,3) by (simp_all add: k1_def)
  show thesis
  proof (rule that [OF run])
    show "vga_ok K" using assms(1) by (simp add: defs)
    show "interrupt_handlers K = (replicate 256 Isr_default_handler)[14 := Isr_page_fault_handler]"
      using idt_init_fields(3) [OF q(1,2), of L] by (simp add: K_def k4_def k3_def k2_def)
    show "if v < 20 then kernel_gate (isr_stub L v) (idt K ! v)
      else if 32 \<le> v \<and> v < 48 then kernel_gate (irq_stub L (v - 32)) (idt K ! v) else idt K ! v = idt k ! v" if "v < 256" for v
      using idt_init_gates [OF q(1) that, of L] q(3) by (simp add: K_def k4_def k3_def k2_def)
    show "heap_state K = \<lparr>heap_start = 0xC0100000, heap_size = 0x800000, heap_used = 0\<rparr>"
      by (simp add: K_def heap_init_def KERNEL_VIRT_BASE_def)
    show "cr3 K = kernel_page_directory L" "bit (cr0 K) 31" by (simp_all add: K_def k4_def vmm_start_regs)
    have "mem (?m ''Initializing VMM with paging...'' k3) = mem (snd (pmm_init 0x8000000 k))"
      by (simp add: k3_def k2_def k1_def pmm_init_def Let_def)
    moreover have "mem K = mem (snd (vmm_start L (?m ''Initializing VMM with paging...'' k3)))" by (simp add: K_def k4_def)
    ultimately show "\<exists>k'. mem k' = mem (snd (pmm_init 0x8000000 k)) \<and> mem K = mem (snd (vmm_start L k'))" by blast
    show "pic_writes K = pic_writes (pic_init k)"
      by (simp add: defs idt_init_pic_writes) (simp add: pic_init_def Let_def pic_writes_outb)
    show "pmm_state K = pmm_state (snd (pmm_init 0x8000000 k))" by (simp add: K_def k4_def k3_def pmm_init_def Let_def)
  qed (simp_all add: defs)
qed

lemma boot_devices_run:
  assumes "vga_ok k"
  obtains K where "run_boot (drop 5 (boot_steps L)) k = Some (True, K)" and "vga_ok K"
    and "interrupt_handlers K = (interrupt_handlers k)[32 := Scheduler_tick, 33 := Kbd_interrupt_handler]"
    and "pic_writes K = pic_writes k @ [(0x21, port_in k 0x21 (in_count k 0x21) AND NOT 1),
      (0x21, port_in k 0x21 (Suc (in_count k 0x21)) AND NOT 2)]"
    and "idt K = idt k" and "heap_state K = heap_state k" and "pmm_state K = pmm_state k"
    and "kbd_state K = (kbd_state k)\<lparr>kbd_head := 0, kbd_tail := 0, shift_pressed := 0, ctrl_pressed := 0\<rparr>"
    and "\<exists>p. process_table p = process_table k \<and> process_table K = process_table (snd (proc_init p))"
    and "current_process K = Some 0" and "current_pid K = 0" and "next_pid K = next_pid k"
    and "cr3 K = cr3 k" and "cr0 K = cr0 k" and "mem K = mem k"
    and "port_in K = port_in k" and "in_count K 0x60 = in_count k 0x60"
proof -
  let ?ok = "vga_putstr (lit ('' OK'' @ nl)) green"
  let ?m = "\<lambda>s. vga_putstr (lit s) cyan"
  let ?p = "?m ''Initializing process management...'' k"
  define k6 where "k6 = ?ok (snd (proc_init ?p))"
  define s7 where "s7 = snd (the (scheduler_init (?m ''Initializing scheduler (100 Hz)...'' k6)))"
  define s8 where "s8 = snd (the (kbd_init (?m ''Initializing keyboard driver...'' (?ok s7))))"
  define k9 where "k9 = ?ok (snd (serial_init (?m ''Initializing serial driver...'' (?ok s8))))"
  define K where "K = ?ok (snd (shell_init (?m ''Initializing shell...'' k9)))"
  note f7 = scheduler_init_frame(2-) [where k = "?m ''Initializing scheduler (100 Hz)...'' k6", folded s7_def]
    irq_init_pic_writes(1,2) [where k = "?m ''Initializing scheduler (100 Hz)...'' k6", folded s7_def]
  note f8 = kbd_init_frame(2-) [where k = "?m ''Initializing keyboard driver...'' (?ok s7)", folded s8_def]
    irq_init_pic_writes(3) [where k = "?m ''Initializing keyboard driver...'' (?ok s7)", folded s8_def]
  note frame = K_def k9_def f8 f7 k6_def
  have run: "run_boot (drop 5 (boot_steps L)) k = Some (True, K)"
    using scheduler_init_frame(1) [of "?m ''Initializing scheduler (100 Hz)...'' k6", folded s7_def]
      kbd_init_frame(1) [of "?m ''Initializing keyboard driver...'' (?ok s7)", folded s8_def]
    by (simp add: boot_steps_def run_boot.simps init_results k6_def k9_def K_def)
  show thesis
  proof (rule that [OF run])
    show "vga_ok K" using assms by (simp add: K_def k9_def s8_def s7_def k6_def shell_init_ok)
    show "\<exists>p. process_table p = process_table k \<and> process_table K = process_table (snd (proc_init p))"
      by (intro exI [of _ ?p]) (simp add: frame)
    show "current_process K = Some 0" "current_pid K = 0" by (simp_all add: frame proc_init_def Let_def)
  qed (simp_all add: frame)
qed

lemma fresh_bitmap:
  assumes "pmm_state K = \<lparr>bitmap = 0xC0200000, total_pages = 32768, allocated_pages = 0, bitmap_size = 4096\<rparr>"
  shows "pmm_inv K \<longleftrightarrow> allocated_frames K = {}" and "pmm_inv K \<longleftrightarrow> (\<forall>i<4096. mem K (0xC0200000 + of_nat i) = 0)"
proof -
  have fc: "frame_count K = 32768" using assms by (simp add: frame_count_def)
  show inv: "pmm_inv K \<longleftrightarrow> allocated_frames K = {}"
    using assms fc by (simp add: pmm_inv_def KERNEL_VIRT_BASE_def)
  have bit: "bitmap_test_bit (of_nat (8 * i + j)) K \<longleftrightarrow> bit (mem K (0xC0200000 + of_nat i)) j" if "i < 4096" "j < 8" for i j
  proof -
    have u: "unat (of_nat (8 * i + j) :: u32) = 8 * i + j" using that by (intro unat_of_nat_u32) simp
    have "of_nat (8 * i + j) div (8 :: u32) = of_nat i" "unat (of_nat (8 * i + j) mod (8 :: u32)) = j"
      using that by (simp_all add: word_unat_eq_iff unat_div unat_mod u del: of_nat_add of_nat_mult)
    then show ?thesis using assms by (simp add: bitmap_test_bit_iff bitmap_byte_def del: of_nat_add of_nat_mult)
  qed
  have "allocated_frames K = {} \<longleftrightarrow> (\<forall>i<4096. \<forall>j<8. \<not> bitmap_test_bit (of_nat (8 * i + j)) K)"
  proof
    assume e: "allocated_frames K = {}"
    show "\<forall>i<4096. \<forall>j<8. \<not> bitmap_test_bit (of_nat (8 * i + j)) K"
    proof (intro allI impI)
      fix i j :: nat
      assume "i < 4096" "j < 8"
      then have "8 * i + j < frame_count K" unfolding fc by simp
      moreover have "8 * i + j \<notin> allocated_frames K" unfolding e by simp
      ultimately show "\<not> bitmap_test_bit (of_nat (8 * i + j)) K" unfolding in_allocated_frames by blast
    qed
  next
    assume a: "\<forall>i<4096. \<forall>j<8. \<not> bitmap_test_bit (of_nat (8 * i + j)) K"
    have "\<not> bitmap_test_bit (of_nat n) K" if "n < 32768" for n
    proof -
      have "n div 8 < 4096" "n mod 8 < 8" "8 * (n div 8) + n mod 8 = n" using that by simp_all
      then show ?thesis using a by metis
    qed
    then have "n \<notin> allocated_frames K" for n unfolding in_allocated_frames fc by blast
    then show "allocated_frames K = {}" by blast
  qed
  also have "\<dots> \<longleftrightarrow> (\<forall>i<4096. mem K (0xC0200000 + of_nat i) = 0)"
  proof -
    have "(\<forall>j<8. \<not> bit b j) \<longleftrightarrow> b = 0" for b :: u8
      by (auto intro: bit_word_eqI)
    then show ?thesis using bit by simp
  qed
  finally show "pmm_inv K \<longleftrightarrow> (\<forall>i<4096. mem K (0xC0200000 + of_nat i) = 0)" using inv by simp
qed

lemma pmm_init_low:
  assumes "a < 0xC0000000"
  shows "mem (snd (pmm_init 0x8000000 k)) a = mem k a"
proof -
  have "KERNEL_VIRT_BASE + 0x200000 + of_nat i \<noteq> a" if "i < 4096" for i
  proof -
    have "unat (0xC0200000 + of_nat i :: u32) = 0xC0200000 + i"
      using that by (simp add: unat_word_ariths unat_of_nat)
    then show ?thesis using assms by (auto simp: KERNEL_VIRT_BASE_def word_less_nat_alt)
  qed
  then show ?thesis
    by (simp add: pmm_init_def Let_def PAGE_SIZE_def) (rule fold_fun_upd_notin, simp)
qed

text \<open>What the machine sees once paging is on.\<close>

lemma paged_memory:
  assumes "image_layout L" and "mem K = mem (snd (vmm_start L k))" and "cr3 K = kernel_page_directory L"
  shows "vmm_ok L K"
    and "mmu_translate K v = (if v < 0x1000000 then Some v
           else if 0xC0000000 \<le> v \<and> v < 0xC1000000 then Some (v - 0xC0000000) else None)"
    and "i < 4096 \<Longrightarrow> mem K (0xC0200000 + of_nat i) = mem k (0x200000 + of_nat i)"
    and "cr3 K' = cr3 K \<Longrightarrow> (\<And>a. a < 0x200000 \<Longrightarrow> mem K' a = mem K a) \<Longrightarrow> mmu_translate K' v = mmu_translate K v"
proof -
  have low: "mem K a = mem (snd (vmm_init L k)) a" if "a < 0x200000" for a
    using that assms(1) unfolding assms(2)
    by (subst vmm_start_mem) (auto simp: word_less_nat_alt word_le_nat_alt)
  show "vmm_ok L K" by (rule tables_low(1) [OF assms(1,3) low])
  show "mmu_translate K v = (if v < 0x1000000 then Some v
           else if 0xC0000000 \<le> v \<and> v < 0xC1000000 then Some (v - 0xC0000000) else None)"
    using tables_low(2) [OF assms(1,3) low, of v] vmm_init_walk [OF image_layout_vmm [OF assms(1)], of k v] by simp
  show "mem K (0xC0200000 + of_nat i) = mem k (0x200000 + of_nat i)" if "i < 4096"
    using vmm_start_bitmap [OF assms(1) that] assms(2) by simp
  show "mmu_translate K' v = mmu_translate K v" if "cr3 K' = cr3 K" "\<And>a. a < 0x200000 \<Longrightarrow> mem K' a = mem K a"
    using tables_low(2) [OF assms(1,3) low, of v] tables_low(2) [OF assms(1), of K' k v] that low assms(3) by simp
qed

text \<open>The state at the call of the shell.\<close>

lemma boot_ends:
  assumes "image_layout L"
  obtains K where "boot L (boot_kernel m screen env) = Some (True, K)" and "int_flag K" and "vga_ok K"
    and "interrupt_handlers K =
      (replicate 256 Isr_default_handler)[14 := Isr_page_fault_handler, 32 := Scheduler_tick, 33 := Kbd_interrupt_handler]"
    and "heap_state K = \<lparr>heap_start = 0xC0100000, heap_size = 0x800000, heap_used = 0\<rparr>"
    and "pmm_state K = \<lparr>bitmap = 0xC0200000, total_pages = 32768, allocated_pages = 0, bitmap_size = 4096\<rparr>"
    and "kbd_ok K" and "kbd_items K = []" and "sched_inv K" and "next_pid K = 1"
    and "vmm_ok L K" and "bit (cr0 K) 31"
    and "\<And>v. mmu_translate K v = (if v < 0x1000000 then Some v
           else if 0xC0000000 \<le> v \<and> v < 0xC1000000 then Some (v - 0xC0000000) else None)"
    and "\<And>i. i < 4096 \<Longrightarrow> mem K (0xC0200000 + of_nat i) = m (0x200000 + of_nat i)"
    and "\<And>K' v. cr3 K' = cr3 K \<Longrightarrow> (\<And>a. a < 0x200000 \<Longrightarrow> mem K' a = mem K a) \<Longrightarrow>
      mmu_translate K' v = mmu_translate K v"
    and "port_in K = env" and "in_count K 0x60 = 0" and "shift_pressed (kbd_state K) = 0"
    and "\<And>v. v < 256 \<Longrightarrow> if v < 20 then kernel_gate (isr_stub L v) (idt K ! v)
      else if 32 \<le> v \<and> v < 48 then kernel_gate (irq_stub L (v - 32)) (idt K ! v) else idt K ! v = zero_idt_entry"
    and "pic_writes K = pic_writes (pic_init (boot_kernel m screen env))
      @ [(0x21, env 0x21 0 AND NOT 1), (0x21, env 0x21 1 AND NOT 2)]"
proof -
  let ?b = "boot_kernel m screen env"
  let ?k = "print_banner (snd (vga_init ?b))"
  have k: "vga_ok ?k" "length (interrupt_handlers ?k) = 256" "length (idt ?k) = 256"
    by (simp_all add: vga_init_def vga_clear_screen print_banner_ok) (simp_all add: boot_kernel_def)
  obtain K1 k' where r1: "run_boot (take 5 (boot_steps L)) ?k = Some (True, K1)" "vga_ok K1"
    "interrupt_handlers K1 = (replicate 256 Isr_default_handler)[14 := Isr_page_fault_handler]"
    "\<And>v. v < 256 \<Longrightarrow> if v < 20 then kernel_gate (isr_stub L v) (idt K1 ! v)
      else if 32 \<le> v \<and> v < 48 then kernel_gate (irq_stub L (v - 32)) (idt K1 ! v) else idt K1 ! v = idt ?k ! v"
    "pic_writes K1 = pic_writes (pic_init ?k)"
    "heap_state K1 = \<lparr>heap_start = 0xC0100000, heap_size = 0x800000, heap_used = 0\<rparr>"
    "pmm_state K1 = pmm_state (snd (pmm_init 0x8000000 ?k))"
    "kbd_state K1 = kbd_state ?k" "process_table K1 = process_table ?k" "next_pid K1 = next_pid ?k"
    "cr3 K1 = kernel_page_directory L" "bit (cr0 K1) 31" "port_in K1 = port_in ?k" "in_count K1 = in_count ?k"
    "mem k' = mem (snd (pmm_init 0x8000000 ?k))" "mem K1 = mem (snd (vmm_start L k'))"
    by (rule boot_memory_run [OF k, of L]) blast
  obtain K0 p where r: "run_boot (drop 5 (boot_steps L)) K1 = Some (True, K0)" "vga_ok K0"
    "interrupt_handlers K0 = (interrupt_handlers K1)[32 := Scheduler_tick, 33 := Kbd_interrupt_handler]"
    "pic_writes K0 = pic_writes K1 @ [(0x21, port_in K1 0x21 (in_count K1 0x21) AND NOT 1),
      (0x21, port_in K1 0x21 (Suc (in_count K1 0x21)) AND NOT 2)]"
    "idt K0 = idt K1" "heap_state K0 = heap_state K1" "pmm_state K0 = pmm_state K1"
    "kbd_state K0 = (kbd_state K1)\<lparr>kbd_head := 0, kbd_tail := 0, shift_pressed := 0, ctrl_pressed := 0\<rparr>"
    "process_table p = process_table K1" "process_table K0 = process_table (snd (proc_init p))"
    "current_process K0 = Some 0" "current_pid K0 = 0" "next_pid K0 = next_pid K1"
    "cr3 K0 = cr3 K1" "cr0 K0 = cr0 K1" "mem K0 = mem K1" "port_in K0 = port_in K1" "in_count K0 0x60 = in_count K1 0x60"
    by (rule boot_devices_run [OF r1(2), of L]) blast
  have run: "run_boot (boot_steps L) ?k = Some (True, K0)"
    using run_boot_append [OF r1(1), of "drop 5 (boot_steps L)"] r(1) by simp
  define K where "K = interrupts_enable (vga_putstr (lit (nl @ ''Enabling interrupts and starting shell...'' @ nl @ nl)) green K0)"
  have K [simp]: "interrupt_handlers K = interrupt_handlers K0" "heap_state K = heap_state K0" "pmm_state K = pmm_state K0"
    "kbd_state K = kbd_state K0" "process_table K = process_table K0" "current_process K = current_process K0"
    "current_pid K = current_pid K0" "next_pid K = next_pid K0" "cr3 K = cr3 K0" "cr0 K = cr0 K0" "mem K = mem K0"
    "port_in K = port_in K0" "in_count K = in_count K0" "idt K = idt K0" "pic_writes K = pic_writes K0"
    by (simp_all add: K_def interrupts_enable_def)
  have pt: "length (process_table p) = 256" "\<And>i. i < 256 \<Longrightarrow> time_slice_remaining (process_table p ! i) = 0"
    using r(9) r1(9) by (simp_all add: vga_init_def boot_kernel_def zero_pcb_def)
  have c: "mem K = mem (snd (vmm_start L k'))" "cr3 K = kernel_page_directory L" using r(14,16) r1(11,16) by simp_all
  note p = paged_memory [OF assms c]
  show thesis
  proof (rule that [of K])
    show "boot L ?b = Some (True, K)" by (simp add: boot_def Let_def run K_def)
    show "int_flag K" "vga_ok K" using r(2) by (simp_all add: K_def interrupts_enable_def vga_ok_def [of "int_flag_update _ _"])
      (simp add: vga_ok_def [symmetric])
    show "kbd_ok K" "kbd_items K = []"
      using r(8) r1(8) by (simp_all add: kbd_ok_def kbd_items_def ring_items_def ring_count_def vga_init_def boot_kernel_def)
    show "sched_inv K"
      using r(10-12) proc_init_table [OF pt(1)] pt(2) by (simp add: sched_inv_def)
    show "vmm_ok L K" by (rule p(1))
    show "mmu_translate K v = (if v < 0x1000000 then Some v
           else if 0xC0000000 \<le> v \<and> v < 0xC1000000 then Some (v - 0xC0000000) else None)" for v by (rule p(2))
    show "mmu_translate K' v = mmu_translate K v" if "cr3 K' = cr3 K" "\<And>a. a < 0x200000 \<Longrightarrow> mem K' a = mem K a" for K' v
      using that by (rule p(4))
    show "mem K (0xC0200000 + of_nat i) = m (0x200000 + of_nat i)" if "i < 4096" for i
    proof -
      have "(0x200000 + of_nat i :: u32) < 0xC0000000"
        using that by (simp add: word_less_nat_alt unat_word_ariths unat_of_nat)
      then show ?thesis using p(3) [OF that] r1(15) pmm_init_low by (simp add: vga_init_def) (simp add: boot_kernel_def)
    qed
    show "if v < 20 then kernel_gate (isr_stub L v) (idt K ! v)
      else if 32 \<le> v \<and> v < 48 then kernel_gate (irq_stub L (v - 32)) (idt K ! v) else idt K ! v = zero_idt_entry" if "v < 256" for v
      using r1(4) [OF that] r(5) that by (simp add: vga_init_def boot_kernel_def)
    show "pic_writes K = pic_writes (pic_init ?b) @ [(0x21, env 0x21 0 AND NOT 1), (0x21, env 0x21 1 AND NOT 2)]"
      using r(4) r1(5,13,14) by (simp add: vga_init_def pic_init_def Let_def pic_writes_outb pic_writes_clear) (simp add: boot_kernel_def)
  qed (use r r1 in \<open>simp_all add: pmm_init_def Let_def PAGE_SIZE_def KERNEL_VIRT_BASE_def vga_init_def boot_kernel_def\<close>)
qed

section \<open>Properties\<close>

lemma boot_on_unchecked: "boot_on False L k = (case boot L k of None \<Rightarrow> Inl Undefined | Some r \<Rightarrow> Inr r)"
  by (simp add: boot_on_def Let_def split: sum.split)

text \<open>On a processor that checks the descriptors the start ends in the first block.\<close>

lemma gdt_fill_frame:
  "idtr (gdt_fill L k) = idtr k" "seg_cs (gdt_fill L k) = seg_cs k" "int_flag (gdt_fill L k) = int_flag k"
  "process_table (gdt_fill L k) = process_table k" "mem (gdt_fill L k) = mem k" "cr0 (gdt_fill L k) = cr0 k"
  "idt (gdt_fill L k) = idt k"
  by (simp_all add: gdt_fill_def gdt_set_entry_def Let_def)

lemma boot_on_checked:
  "\<exists>F. boot_on True L (boot_kernel m screen env) = Inl (Faulted F)
     \<and> gdtr F = \<lparr>ptr_limit = 47, ptr_base = gdt_addr L\<rparr> \<and> idtr F = zero_table_ptr \<and> seg_cs F = seg_cs (boot_kernel m screen env)
     \<and> idt F = idt (boot_kernel m screen env) \<and> mem F = m \<and> \<not> int_flag F"
proof -
  let ?k = "vga_putstr (lit ''Initializing GDT...'') cyan (print_banner (snd (vga_init (boot_kernel m screen env))))"
  have l: "length (gdt ?k) = 6" by (simp add: print_banner_def Let_def vga_init_def) (simp add: boot_kernel_def)
  show ?thesis
    unfolding boot_on_def gdt_init_checked_faults [OF l]
    by (simp add: gdt_fill_frame Let_def print_banner_def vga_init_def) (simp add: boot_kernel_def)
qed

text \<open>C5: the start of the kernel. For an image below 2 MB, whatever memory, screen and devices hold:
  where the loads of the segment registers in \<^verbatim>\<open>gdt_init\<close> are taken to succeed, all ten initialisations report
  success and \<^verbatim>\<open>kmain\<close> reaches the shell with interrupts on, and at that point every
  component but the frame bitmap is in a state its invariant allows: paging is on with the two
  windows, the heap is empty and well formed, process 0 is current, the keyboard ring is empty, the cursor
  is on the screen, and the handlers for page faults, timer and keyboard are in place. On a processor that
  checks the descriptors, however, the far jump in \<^verbatim>\<open>gdt_init\<close> faults: the start ends in the first block,
  with the new descriptor table loaded and no interrupt table, so that the fault cannot be handled.\<close>

theorem boot_reaches_shell:
  assumes "image_layout L"
  shows "(\<exists>K. boot_on False L (boot_kernel m screen env) = Inr (True, K) \<and> int_flag K \<and> vga_ok K
      \<and> vmm_ok L K \<and> bit (cr0 K) 31
      \<and> (\<forall>v. mmu_translate K v = (if v < 0x1000000 then Some v
             else if 0xC0000000 \<le> v \<and> v < 0xC1000000 then Some (v - 0xC0000000) else None))
      \<and> heap_ok K \<and> heap_blocks K = [] \<and> sched_inv K \<and> kbd_ok K \<and> kbd_items K = []
      \<and> interrupt_handlers K =
        (replicate 256 Isr_default_handler)[14 := Isr_page_fault_handler, 32 := Scheduler_tick, 33 := Kbd_interrupt_handler])
    \<and> (\<exists>F. boot_on True L (boot_kernel m screen env) = Inl (Faulted F)
      \<and> gdtr F = \<lparr>ptr_limit = 47, ptr_base = gdt_addr L\<rparr> \<and> idtr F = zero_table_ptr \<and> seg_cs F = seg_cs (boot_kernel m screen env)
      \<and> idt F = idt (boot_kernel m screen env) \<and> mem F = m \<and> \<not> int_flag F)"
proof (rule boot_ends [OF assms, of m screen env])
  fix K :: kernel
  assume h: "heap_state K = \<lparr>heap_start = 0xC0100000, heap_size = 0x800000, heap_used = 0\<rparr>"
  have "heap_inv K []" by (simp add: heap_inv_def h)
  then have "heap_ok K" "heap_blocks K = []" by (simp_all add: heap_okI heap_blocks_eq)
  moreover assume "boot L (boot_kernel m screen env) = Some (True, K)" "int_flag K" "vga_ok K" "vmm_ok L K" "bit (cr0 K) 31"
    "\<And>v. mmu_translate K v = (if v < 0x1000000 then Some v
           else if 0xC0000000 \<le> v \<and> v < 0xC1000000 then Some (v - 0xC0000000) else None)"
    "sched_inv K" "kbd_ok K" "kbd_items K = []" "interrupt_handlers K =
      (replicate 256 Isr_default_handler)[14 := Isr_page_fault_handler, 32 := Scheduler_tick, 33 := Kbd_interrupt_handler]"
  ultimately show ?thesis
    by (intro conjI boot_on_checked exI [of _ K]) (simp_all add: boot_on_unchecked)
qed

lemma example_image: "image_layout example_layout"
  using example_layout_ok by (simp add: image_layout_def) (simp add: example_layout_def)

theorem boot_reaches_shell_witness:
  "\<exists>K. boot_on False example_layout (boot_kernel (\<lambda>a. ucast a) (\<lambda>_. 0) (\<lambda>_ _. 0)) = Inr (True, K)
    \<and> mmu_translate K 0xC0100000 = Some 0x100000 \<and> interrupt_handlers K ! 33 = Kbd_interrupt_handler"
  using boot_reaches_shell [OF example_image, of "\<lambda>a. ucast a" "\<lambda>_. 0" "\<lambda>_ _. 0"] by fastforce

text \<open>C37: the bitmap of the physical allocator is cleared in the wrong place. \<^verbatim>\<open>pmm_init\<close> runs before paging
  is on, so the zeros it writes from 0xC0200000 on are not where that address leads afterwards: at the
  shell, the bitmap holds what physical memory from 2 MB on held at the start. The allocator reports
  32768 free frames, and its bitmap agrees with that exactly if these 4096 bytes were zero.\<close>

theorem boot_bitmap_not_cleared:
  assumes "image_layout L"
  shows "\<exists>K. boot L (boot_kernel m screen env) = Some (True, K)
    \<and> pmm_get_allocated K = 0 \<and> pmm_get_total K = 32768
    \<and> (\<forall>i<4096. mem K (bitmap (pmm_state K) + of_nat i) = m (0x200000 + of_nat i))
    \<and> (pmm_inv K \<longleftrightarrow> (\<forall>i<4096. m (0x200000 + of_nat i) = 0))
    \<and> (pmm_inv K \<longleftrightarrow> allocated_frames K = {})"
proof (rule boot_ends [OF assms, of m screen env])
  fix K :: kernel
  assume p: "pmm_state K = \<lparr>bitmap = 0xC0200000, total_pages = 32768, allocated_pages = 0, bitmap_size = 4096\<rparr>"
    and b: "\<And>i. i < 4096 \<Longrightarrow> mem K (0xC0200000 + of_nat i) = m (0x200000 + of_nat i)"
    and e: "boot L (boot_kernel m screen env) = Some (True, K)"
  show ?thesis
    by (intro exI [of _ K] conjI fresh_bitmap(1) [OF p])
      (use e b p fresh_bitmap(2) [OF p] in \<open>simp_all add: pmm_get_allocated_def pmm_get_total_def\<close>)
qed

theorem boot_bitmap_not_cleared_witness:
  "\<exists>K. boot example_layout (boot_kernel (\<lambda>_. 1) (\<lambda>_. 0) (\<lambda>_ _. 0)) = Some (True, K)
    \<and> pmm_get_allocated K = 0 \<and> allocated_frames K \<noteq> {}"
proof -
  have "\<not> (\<forall>i<4096. (\<lambda>_. 1 :: u8) (0x200000 + of_nat i :: u32) = 0)" by (auto intro: exI [of _ 0])
  with boot_bitmap_not_cleared [OF example_image, of "\<lambda>_. 1" "\<lambda>_. 0" "\<lambda>_ _. 0"] show ?thesis by blast
qed

end
