(* ===== verification/Interrupts.thy ===== *)
theory Interrupts
  imports Kernel
begin

text \<open>
  The way of a hardware interrupt after the start: from a line of the interrupt controllers through the
  vector they assign and the gate at that vector to the handler the table of \<^verbatim>\<open>idt.c\<close> names. The stub
  between gate and handler is not part of the repository; what it has to do is call
  \<^verbatim>\<open>interrupt_handlers[int_no]\<close>, so the entry of that table says which function of the kernel an
  interrupt is meant for.
\<close>

section \<open>Lines, vectors and handlers\<close>

text \<open>The header names the first vector of the hardware interrupts, the two lines the kernel uses, and the
  exception whose vector is 8.\<close>

definition INT_HARDWARE_IRQ :: nat where "INT_HARDWARE_IRQ = 32"
definition INT_DOUBLE_FAULT :: nat where "INT_DOUBLE_FAULT = 8"
definition IRQ_TIMER :: nat where "IRQ_TIMER = 0"
definition IRQ_KEYBOARD :: nat where "IRQ_KEYBOARD = 1"

lemmas irq_defs = INT_HARDWARE_IRQ_def INT_DOUBLE_FAULT_def IRQ_TIMER_def IRQ_KEYBOARD_def

text \<open>A controller in 8086 mode sends the upper five bits of its base with the number of the line.\<close>

definition irq_vector :: "pic \<times> pic \<Rightarrow> nat \<Rightarrow> nat" where
  "irq_vector ps i = unat (vector_base (if i < 8 then fst ps else snd ps) OR of_nat (i mod 8))"

text \<open>What a call of a table entry does; \<open>None\<close> is a call that leads out of the kernel's functions.\<close>

fun handler_runs :: "interrupt_handler_t \<Rightarrow> u32 \<Rightarrow> kernel \<Rightarrow> outcome option" where
  "handler_runs Isr_default_handler ctx k = Some (isr_default_handler k)"
| "handler_runs Isr_page_fault_handler ctx k = Some (isr_page_fault_handler k)"
| "handler_runs Scheduler_tick ctx k = Some (Returned (scheduler_tick ctx k))"
| "handler_runs Kbd_interrupt_handler ctx k = Some (Returned (kbd_interrupt_handler k))"
| "handler_runs Handler_null ctx k = None"
| "handler_runs (Handler_at a) ctx k = None"

text \<open>An interrupt on line \<open>i\<close>: nothing while interrupts are off or the line is masked.\<close>

definition line_interrupt :: "pic \<times> pic \<Rightarrow> nat \<Rightarrow> u32 \<Rightarrow> kernel \<Rightarrow> outcome option" where
  "line_interrupt ps i ctx k =
     (if int_flag k \<and> i \<notin> masked_lines ps then handler_runs (interrupt_handlers k ! irq_vector ps i) ctx k
      else Some (Returned k))"

section \<open>The controllers at the shell\<close>

lemma masked_lines_iff:
  "i \<in> masked_lines ps \<longleftrightarrow> i < 16 \<and> bit (imr (if i < 8 then fst ps else snd ps)) (i mod 8)"
  by (auto simp: masked_lines_def)

lemma pic_mask_write: "icw_due m = [] \<Longrightarrow> pic_write (0x21, v) (m, s) = (m\<lparr>imr := v\<rparr>, s)"
  by (simp add: pic_write_def pic_data_def)

text \<open>The writes of \<^verbatim>\<open>kmain\<close>: those of \<^verbatim>\<open>pic_init\<close>, and the masks of the two calls of \<^verbatim>\<open>irq_enable\<close>.\<close>

lemma boot_pics:
  assumes "pics_idle (m, s)"
  shows "fold pic_write (pic_writes (pic_init (boot_kernel mm screen env)) @ [(0x21, x), (0x21, y)]) (m, s) =
    (m\<lparr>imr := y\<rparr>, s\<lparr>imr := 0xFF\<rparr>)"
proof -
  let ?b = "boot_kernel mm screen env"
  have p: "pic_writes ?b = []" by (simp add: pic_writes_def boot_kernel_def)
  have "fold pic_write (pic_writes (pic_init ?b)) (m, s) = (m\<lparr>imr := 0xFF\<rparr>, s\<lparr>imr := 0xFF\<rparr>)"
    using assms by (simp add: pic_init_def Let_def pic_writes_outb p pic_write_def pic_command_def pic_data_def pics_idle_def)
  then show ?thesis using assms by (simp add: pic_mask_write pics_idle_def)
qed

lemma irq_vector_imr: "irq_vector (m\<lparr>imr := x\<rparr>, s\<lparr>imr := y\<rparr>) i = irq_vector (m, s) i"
  by (simp add: irq_vector_def)

lemma masked_lines_from:
  assumes "\<And>n. n < 8 \<Longrightarrow> bit x n \<longleftrightarrow> 2 \<le> n" and "\<And>n. n < 8 \<Longrightarrow> bit y n"
  shows "masked_lines (m\<lparr>imr := x\<rparr>, s\<lparr>imr := y\<rparr>) = {2..<16}"
proof (rule set_eqI)
  fix i
  show "i \<in> masked_lines (m\<lparr>imr := x\<rparr>, s\<lparr>imr := y\<rparr>) \<longleftrightarrow> i \<in> {2..<16}"
    unfolding atLeastLessThan_iff using assms(1) [of i] assms(2) [of "i mod 8"]
    by (cases "i < 8") (auto simp: masked_lines_iff)
qed

lemma boot_masks: "masked_lines (m\<lparr>imr := 0xFC\<rparr>, s\<lparr>imr := 0xFF\<rparr>) = {2..<16}"
proof -
  have "\<forall>n<8. bit (0xFC :: u8) n \<longleftrightarrow> 2 \<le> n" "\<forall>n<8. bit (0xFF :: u8) n" by code_simp+
  then show ?thesis by (intro masked_lines_from) blast+
qed

text \<open>The controllers at the shell, when reading the data port returns the mask last written: two lines are
  open, and the vectors are those of the start.\<close>

lemma pics_at_shell:
  assumes "pics_idle ps" and "env 0x21 0 = 0xFF" and "env 0x21 1 = 0xFE"
    and "pic_writes K = pic_writes (pic_init (boot_kernel m screen env))
      @ [(0x21, env 0x21 0 AND NOT 1), (0x21, env 0x21 1 AND NOT 2)]"
  defines "ps' \<equiv> pics_after (boot_kernel m screen env) K ps"
  shows "masked_lines ps' = {2..<16}" and "irq_vector ps' i = irq_vector ps i"
proof -
  obtain a s where ps: "ps = (a, s)" by (cases ps)
  have "ps' = fold pic_write (pic_writes K) ps"
    using fold_pic_write [of "port_out K" ps] by (simp add: ps'_def pics_after_def boot_kernel_def pic_writes_def)
  then have p: "ps' = (a\<lparr>imr := 0xFC\<rparr>, s\<lparr>imr := 0xFF\<rparr>)" using assms(1-3) boot_pics by (simp add: assms(4) ps)
  show "masked_lines ps' = {2..<16}" unfolding p by (rule boot_masks)
  show "irq_vector ps' i = irq_vector ps i" unfolding p by (simp add: ps irq_vector_imr)
qed

text \<open>Where the keyboard line leads then, as long as flag and handler table stay.\<close>

lemma line_at_shell:
  assumes "pics_idle ps" and "env 0x21 0 = 0xFF" and "env 0x21 1 = 0xFE"
    and "pic_writes K = pic_writes (pic_init (boot_kernel m screen env))
      @ [(0x21, env 0x21 0 AND NOT 1), (0x21, env 0x21 1 AND NOT 2)]"
    and "irq_state k = irq_state K" and "int_flag K"
  shows "line_interrupt (pics_after (boot_kernel m screen env) K ps) IRQ_KEYBOARD ctx k =
    handler_runs (interrupt_handlers K ! irq_vector ps IRQ_KEYBOARD) ctx k"
  using pics_at_shell [OF assms(1-4)] assms(5,6) by (simp add: line_interrupt_def irq_state_def irq_defs)

section \<open>Properties\<close>

text \<open>C7: the interrupts of timer and keyboard do not reach their handlers. After the start, lines 0 and 1
  are unmasked and interrupts are on, but every line still has the vector it had before \<^verbatim>\<open>kmain\<close>; on a
  PC, where the firmware leaves line 0 at vector 8, the first timer interrupt goes through the gate of
  the double-fault exception to \<^verbatim>\<open>isr_default_handler\<close>, which halts the machine; a key press likewise. The handlers
  installed at 32 and 33 are those of the scheduler and of the keyboard, and no line leads there. (The
  controller is idle at the start, and reading its data port returns the mask.)\<close>

theorem first_interrupt_halts:
  assumes "image_layout L" and "pics_idle ps" and "env 0x21 0 = 0xFF" and "env 0x21 1 = 0xFE"
    and "vector_base (fst ps) = 8" and "vector_base (snd ps) = 0x70"
  shows "\<exists>K. boot L (boot_kernel m screen env) = Some (True, K) \<and> int_flag K
    \<and> (let ps' = pics_after (boot_kernel m screen env) K ps
       in masked_lines ps' = {2..<16} \<and> (\<forall>i<16. irq_vector ps' i = irq_vector ps i
             \<and> irq_vector ps' i \<notin> {INT_HARDWARE_IRQ + IRQ_TIMER, INT_HARDWARE_IRQ + IRQ_KEYBOARD})
          \<and> interrupt_handlers K ! (INT_HARDWARE_IRQ + IRQ_TIMER) = Scheduler_tick
          \<and> interrupt_handlers K ! (INT_HARDWARE_IRQ + IRQ_KEYBOARD) = Kbd_interrupt_handler
          \<and> irq_vector ps' IRQ_TIMER = INT_DOUBLE_FAULT
          \<and> (\<forall>i\<in>{IRQ_TIMER, IRQ_KEYBOARD}. kernel_gate (isr_stub L (8 + i)) (idt K ! irq_vector ps' i)
               \<and> line_interrupt ps' i ctx K = Some (isr_default_handler K)
               \<and> (\<exists>S. line_interrupt ps' i ctx K = Some (Stopped S))))"
proof (rule boot_ends [OF assms(1), of m screen env])
  fix K :: kernel
  assume K: "boot L (boot_kernel m screen env) = Some (True, K)" "int_flag K"
    and h: "interrupt_handlers K =
      (replicate 256 Isr_default_handler)[14 := Isr_page_fault_handler, 32 := Scheduler_tick, 33 := Kbd_interrupt_handler]"
    and g: "\<And>v. v < 256 \<Longrightarrow> if v < 20 then kernel_gate (isr_stub L v) (idt K ! v)
      else if 32 \<le> v \<and> v < 48 then kernel_gate (irq_stub L (v - 32)) (idt K ! v) else idt K ! v = zero_idt_entry"
    and w: "pic_writes K = pic_writes (pic_init (boot_kernel m screen env))
      @ [(0x21, env 0x21 0 AND NOT 1), (0x21, env 0x21 1 AND NOT 2)]"
  let ?ps = "pics_after (boot_kernel m screen env) K ps"
  have m: "masked_lines ?ps = {2..<16}" and v: "irq_vector ?ps i = irq_vector ps i" for i
    by (rule pics_at_shell [OF assms(2-4) w])+
  have low: "irq_vector ps i = 8 + i" if "i < 8" for i
  proof -
    have "\<forall>j<8. unat (8 OR of_nat j :: u8) = 8 + j" by code_simp
    then show ?thesis using that assms(5) by (simp add: irq_vector_def)
  qed
  have "\<forall>j<8. unat (0x70 OR of_nat j :: u8) = 0x70 + j" by code_simp
  then have high: "irq_vector ps i = 0x70 + i mod 8" if "8 \<le> i" for i using that assms(6) by (simp add: irq_vector_def)
  have n: "irq_vector ?ps i \<notin> {32, 33}" for i unfolding v using low [of i] high [of i] by (cases "i < 8") auto
  have l: "kernel_gate (isr_stub L (8 + i)) (idt K ! irq_vector ?ps i)"
      "line_interrupt ?ps i ctx K = Some (isr_default_handler K)" if "i < 2" for i
    using that low [of i] g [of "8 + i"] K(2) m by (simp_all add: v line_interrupt_def h)
  show ?thesis
    by (intro exI [of _ K]) (use K m v n l(2) l(1) [of 0] l(1) [of 1] h low [of 0] low [of 1] in \<open>auto simp: Let_def isr_default_handler_def irq_defs\<close>)
qed

text \<open>The firmware's bases, and a data port that reads back what was written.\<close>

theorem first_interrupt_halts_witness:
  "\<exists>K S. boot example_layout (boot_kernel (\<lambda>_. 0) (\<lambda>_. 0) (\<lambda>_ i. if i = 0 then 0xFF else 0xFE)) = Some (True, K)
    \<and> line_interrupt (pics_after (boot_kernel (\<lambda>_. 0) (\<lambda>_. 0) (\<lambda>_ i. if i = 0 then 0xFF else 0xFE)) K
        (\<lparr>vector_base = 8, imr = 0xB8, icw_due = []\<rparr>, \<lparr>vector_base = 0x70, imr = 0x8E, icw_due = []\<rparr>)) 0 0 K = Some (Stopped S)"
  using first_interrupt_halts [OF example_image, of "(\<lparr>vector_base = 8, imr = 0xB8, icw_due = []\<rparr>, \<lparr>vector_base = 0x70, imr = 0x8E, icw_due = []\<rparr>)"
      "\<lambda>_ i. if i = 0 then 0xFF else 0xFE" "\<lambda>_. 0" "\<lambda>_. 0" 0]
  by (auto simp: pics_idle_def Let_def isr_default_handler_def irq_defs)

end
