(* ===== verification/Session.thy ===== *)
theory Session
  imports Interrupts
begin

text \<open>
  The kernel at work: from the scancodes of the keyboard through the interrupt handler, the ring and
  the line editor to the commands. The loop of \<^verbatim>\<open>shell_run\<close> is followed over a whole session that starts
  with \<^verbatim>\<open>kmain\<close>; the scancodes come in at any of the polls of the shell, in any rhythm that does not
  overflow the ring, and each raises the keyboard line of the interrupt controllers, which decide what
  handler it reaches. The timer line is quiet.
\<close>

section \<open>The code\<close>


section \<open>Lines in the buffer\<close>





section \<open>One line\<close>

text \<open>The lines that stop the machine, and a machine that has been stopped by one.\<close>

definition reboots :: "u8 list \<Rightarrow> bool" where
  "reboots line \<longleftrightarrow> line_words line \<noteq> [] \<and> length (line_words line) < 16 \<and> line ! hd (line_words line) = 0x72"


lemma not_reboots_Nil [simp]: "\<not> reboots []"
  by (simp add: reboots_def line_words_Nil)


text \<open>Output leaves the keyboard alone.\<close>

lemma keys_due_putstr [simp]: "keys_due intr M b E n (vga_putstr str color k) cs = keys_due intr M b E n k cs"
  by (rule keys_due_cong) simp_all



section \<open>A session\<close>




section \<open>Properties\<close>









end
