(* ===== verification/System.thy ===== *)
theory System
  imports Session
begin

text \<open>
  The running kernel as a transition system. A step is a call of one of the kernel's operations: a timer
  tick or another operation on processes, a key press, reading a key, printing, a command of the shell,
  and the calls of the two allocators by well-behaved clients, who release and write the blocks they
  own. From every state in which the invariants of the components hold and the heap lies clear of
  everything else, every state that is reached satisfies them too, and nothing but heap and bitmap has
  been written.

  The condition on the heap is \<open>heap_placed\<close>. It is not how \<^verbatim>\<open>kmain\<close> places it: that heap begins at
  0xC0100000, over the kernel's own image; the root theory shows what follows.
\<close>

section \<open>Heap and bitmap side by side\<close>


















section \<open>Creating a process\<close>





section \<open>The transition system\<close>









section \<open>Blocks nobody touches\<close>











section \<open>Well-formed states\<close>






lemma boot_frames:
  assumes "image_layout L" and "\<forall>i<4096. m (0x200000 + of_nat i) = 0" and "boot L (boot_kernel m screen env) = Some (True, K)"
  shows "pmm_inv K"
proof (rule boot_ends [OF assms(1), of m screen env])
  fix K' :: kernel
  assume b: "boot L (boot_kernel m screen env) = Some (True, K')"
    "pmm_state K' = \<lparr>bitmap = 0xC0200000, total_pages = 32768, allocated_pages = 0, bitmap_size = 4096\<rparr>"
    "\<And>i. i < 4096 \<Longrightarrow> mem K' (0xC0200000 + of_nat i) = m (0x200000 + of_nat i)"
  have "pmm_inv K'" using fresh_bitmap(2) [OF b(2)] b(3) assms(2) by simp
  moreover have "K' = K" using b(1) assms(3) by simp
  ultimately show ?thesis by simp
qed



section \<open>Properties\<close>







end
