(* ===== verification/Spec2Isabelle.thy ===== *)
theory Spec2Isabelle
  imports System
begin

text \<open>
  \<^bold>\<open>NIMBU OS, a verification of the kernel.\<close> NIMBU OS is a small 32-bit x86 kernel in C
  (\<^verbatim>\<open>src/src/kernel\<close>, headers in \<^verbatim>\<open>src/include\<close>): a start routine initialises descriptor tables, interrupt
  controller, physical and virtual memory, heap, processes, timer, keyboard, serial line and screen,
  and hands over to a shell that reads lines from the keyboard. The library models every C function of
  these files and states what each does; where the code does not do what it says, the theorem says what
  it does.

  \<^bold>\<open>Modelling.\<close>
  \<^item> A C function is a function on the record \<open>kernel\<close> (theory Kernel_State), which holds the machine
    (byte memory, port input and output, interrupt flag, control and segment registers) and the static
    variables of every file; \<open>boot_kernel\<close> is the state at the entry of \<^verbatim>\<open>kmain\<close>.
  \<^item> Integers are words of the width of their C type and wrap as in C; loops over an index are folds
    or recursive functions; a pointer is its address, 0 is \<^verbatim>\<open>NULL\<close>; pointers into the command line
    are offsets.
  \<^item> A loop that may run for ever is a \<open>partial_function (option)\<close>: \<open>None\<close> means that it does not return
    (\<open>heap_walk\<close>, \<open>serial_recv_byte\<close>, \<open>read_line_loop\<close>, \<open>shell_run\<close>, \<open>kmain\<close>), and nothing else; that they
    return is proved as \<open>Some\<close> where it holds. In functions without such a loop \<open>None\<close> is a call that C
    leaves undefined (a shift by 32 or more in \<open>irq_enable\<close>, a store behind a buffer in
    \<open>shell_parse_args\<close>). No definition uses fuel. Bounded polling (100000 polls of
    \<open>serial_wait\<close>) and the search of \<open>find_free_page\<close> have termination proofs.
  \<^item> Endless loops that change nothing (\<^verbatim>\<open>while (1) hlt\<close>) end in \<open>Stopped\<close> (type \<open>outcome\<close>). How the whole
    machine ends is a \<open>machine_end\<close>: halted, by a fault no handler is installed for, or in undefined
    behaviour.
  \<^item> What is outside the repository is a parameter: the addresses the linker and the missing assembly
    stubs would give (record \<open>layout\<close>; \<open>vmm_layout\<close> and \<open>image_layout\<close> state what the alignment
    attributes and the linker script promise), the device input (\<open>port_in\<close>), the interrupt controllers as
    the firmware leaves them (\<open>ps\<close>), the number of keyboard interrupts before each poll of the shell
    (\<open>intr\<close>) and what each of them does (\<open>irq\<close>), the uninitialised array of argument pointers
    (\<open>argv\<close>), and whether the processor checks the descriptors it loads (\<open>checks\<close>).

  \<^bold>\<open>Theories.\<close>
  \<^item> Nimbu_Prelude: types, little-endian loads and stores, lemmas on folds of updates and on words.
    Kernel_State: the structures of the headers, the machine, ports.
  \<^item> Pmm (\<^verbatim>\<open>mm/pmm.c\<close>): the frame bitmap. The allocator refines a set of allocated frames
    (\<open>allocated_frames\<close>, invariant \<open>pmm_inv\<close>): lowest free frame first, exact release, round trip; frame
    0 is handed out with the failure value. The contract is the locale \<open>frame_allocator\<close>, interpreted
    as \<open>pmm\<close>.
  \<^item> Heap (\<^verbatim>\<open>mm/heap.c\<close>): blocks with headers in memory. The list of blocks is read off memory
    (\<open>heap_blocks\<close>, \<open>heap_ok\<close>); \<open>kmalloc\<close> is first fit on it and returns; live blocks are disjoint and
    keep their bytes over any run of operations. The contract is the locale \<open>block_allocator\<close>,
    interpreted as \<open>kheap\<close>.
  \<^item> Vmm (\<^verbatim>\<open>mm/vmm.c\<close>): page directory and tables in memory, against the page walk of the processor
    (\<open>mmu_translate\<close>). Locale \<open>entry_store\<close>, interpreted as \<open>pages\<close>.
  \<^item> Gdt, Idt (\<^verbatim>\<open>arch/x86\<close>): descriptors as the processor reads them and checks them on a load
    (\<open>gdt_flush_checked\<close>), gates, the port protocol of the interrupt controllers.
  \<^item> Vga, Kbd, Serial (\<^verbatim>\<open>drivers\<close>): the screen refines a terminal of 2000 cells (locale \<open>char_sink\<close>,
    interpreted as \<open>screen\<close>); the keyboard ring is a bounded queue of 255 characters (locale
    \<open>bounded_queue\<close>, interpreted as \<open>ring\<close>); the serial line sends what the line status
    register lets it, byte for byte, and stops at the first timeout.
  \<^item> Kbd_Stream: the ring between its two users. \<^verbatim>\<open>kbd_getchar\<close> access by access, with the interrupt handler
    between any two of them (\<open>kbd_getchar_interrupted\<close>), is one step; over any sequence of such polls no
    character is lost, doubled or moved. \<open>key_flow\<close> and \<open>keys_due\<close> carry this to the readers: what is still
    to be read of the scancodes to come, however these are spread over the polls.
  \<^item> Process, Scheduler (\<^verbatim>\<open>proc\<close>): the process table, creation, blocking, the timer tick and the switch;
    the invariant \<open>sched_inv\<close> over every sequence of steps (\<open>proc_step\<close>).
  \<^item> Shell (\<^verbatim>\<open>shell/shell.c\<close>): reading and editing a line, splitting it, the nine commands.
  \<^item> Kernel (\<^verbatim>\<open>kernel.c\<close>): \<^verbatim>\<open>kmain\<close> up to the shell (\<open>boot\<close>). With the segment loads of \<^verbatim>\<open>gdt_init\<close> taken to
    succeed it always gets there, with the invariant of every component but one: the frame bitmap is
    cleared before paging is on, so not where it is used. On a processor that checks descriptors
    (\<open>boot_on True\<close>) it faults in the first initialisation.
  \<^item> Interrupts: the way of a hardware interrupt after the start, from the line of a controller to the
    handler: on a PC the first one halts the machine, because the controllers were never moved to the
    vectors the handlers are at.
  \<^item> Session: the whole of \<^verbatim>\<open>kmain\<close>, from scancodes to commands. On a machine that delivers the keyboard line
    at vector 33, over a whole session of lines, typed in any rhythm that lets the ring overflow at no poll
    (\<open>backlog\<close>), the shell ends exactly if one of the lines has at most 15 words and a first word
    that begins with r, and waits for ever otherwise; on a PC the first key halts it.
  \<^item> System: the running kernel as a transition system (\<open>system_step\<close>) over ticks, keys, commands, process
    operations and calls of both allocators. For a heap placed clear of image, bitmap and stacks
    (\<open>heap_placed\<close>), the invariants of all components hold in every reachable
    state (locale \<open>step_invariant\<close> of the prelude, interpreted as \<open>procs\<close> and \<open>system\<close>), no operation is
    stuck, nothing outside heap and bitmap is written (\<open>confined\<close>), and a block that no client
    releases or writes, such as the saved context of a process, keeps its bytes.
  \<^item> This theory: the regions of memory that overlap after the start, and what a write through one window
    does to the other (\<open>mmu_write\<close>).

  \<^bold>\<open>Limits.\<close> Memory is indexed by the address the code uses. The switch to paging re-reads it through
    the new translation (\<open>paging_view\<close>), and the tables themselves are read where the directory says;
    that later writes through the window at 3 GB show in the window at 0 and the reverse is modelled
    by \<open>mmu_write\<close> only, and the theorems on heap, bitmap and saved contexts speak of the window they
    use: they hold as long as nobody writes to the same frames through the other one, and
    the last section shows that the owner of a large block can. Text memory of the screen is a
    field of its own.

    The static variables and the stack are fields of the record, or C's own, apart from the byte memory:
    the model is right as long as no pointer the kernel writes through reaches the image. The page tables
    are in the byte memory. The heap \<^verbatim>\<open>kmain\<close> sets up lies over the image, which the last section
    shows; the theorems of Heap hold for the bytes of the heap in any place, those of System ask for
    \<open>heap_placed\<close>, which keeps it clear of image, bitmap and stacks. \<^verbatim>\<open>vmm_map\<close> and \<^verbatim>\<open>vmm_get_phys\<close>
    reach a page table through its physical address, as the code does; a table that is not mapped to
    itself, from 16 MB on, would be a page fault there, so the theorem on new tables asks for a frame that is.

    A key press is interleaved with the accesses of \<^verbatim>\<open>kbd_getchar\<close>, and comes in between
    the polls of the shell; otherwise a tick and a key press are steps between calls of kernel
    functions. System takes it that a key press calls the keyboard handler and a tick the scheduler, as the
    handler table intends; Interrupts and Session ask the controllers, and take it from the stubs, which
    are in no file, that they call the entry of the handler table for their vector; in Session the timer line is quiet.
    \<open>system_step\<close> leaves out \<^verbatim>\<open>vmm_map\<close> and \<^verbatim>\<open>vmm_unmap\<close>, and writes of clients into the frames they
    own: a frame of the physical allocator may be one of the heap, the
    bitmap or the image, since nothing reserves these; what the
    two functions do where it is not is in Vmm.

  \<^bold>\<open>Not modelled.\<close> \<^verbatim>\<open>boot.asm\<close> (assembly; its effect is \<open>boot_kernel\<close>), the interrupt stubs \<^verbatim>\<open>isr0\<close> to
  \<^verbatim>\<open>irq15\<close>, \<^verbatim>\<open>pit_handler\<close> and \<^verbatim>\<open>gdt_flush\<close> (declared, defined nowhere), the linker script, build files and
  documentation. The lines of the C files that no definition names are comments, declarations of functions
  modelled where they are defined, and constants that no function uses.
\<close>

section \<open>Memory regions that overlap\<close>

text \<open>The first block of the heap.\<close>

lemma first_block:
  assumes "heap_state K = \<lparr>heap_start = 0xC0100000, heap_size = 0x800000, heap_used = 0\<rparr>"
    and "sz \<noteq> 0" and "unat sz + 12 \<le> 0x800000"
  obtains k' where "kmalloc sz K = Some (0xC010000C, k')" and "cr3 k' = cr3 K"
    and "\<And>a. a < 0x200000 \<Longrightarrow> mem k' a = mem K a"
proof -
  have "heap_inv K []" by (simp add: heap_inv_def assms(1))
  then have ok: "heap_ok K" "heap_blocks K = []" by (simp_all add: heap_okI heap_blocks_eq)
  have "unat sz \<noteq> 0" using assms(2) by (simp add: unat_eq_0)
  then obtain k' where k': "kmalloc sz K = Some (0xC010000C, k')" "heap_ok k'"
    using kmalloc_refines [OF ok(1), of sz] assms(3) by (auto simp: ok(2) assms(1) kmalloc_spec_def Let_def)
  have "cr3 k' = cr3 K" by (subst kmalloc_frame [OF k'(1)]) simp
  moreover have "mem k' a = mem K a" if "a < 0x200000" for a
  proof (rule kmalloc_writes(1) [OF ok(1) k'(1)])
    have s: "heap_start (heap_state k') = 0xC0100000" "heap_size (heap_state k') = 0x800000"
      using kmalloc_writes(2,3) [OF ok(1) k'(1)] assms(1) by simp_all
    have "unat (heap_used (heap_state k')) \<le> 0x800000"
      using k'(2) s by (auto simp: heap_ok_def heap_inv_def)
    then have "0x200000 \<le> 0xC0100000 + (of_nat j :: u32)" if "j < unat (heap_used (heap_state k'))" for j
      using that by (simp add: word_le_nat_alt unat_word_ariths unat_of_nat)
    then show "\<not> in_blocks a k'" using that s by (auto simp: in_blocks_def not_le [symmetric])
  qed
  ultimately show thesis using that k'(1) by blast
qed

text \<open>The heap lies over the kernel image and over the bitmap of the physical allocator. After the
  start, the first \<^verbatim>\<open>kmalloc\<close> of up to 8 MB less the header succeeds with the block at 0xC010000C; its
  header is at the physical load address of the kernel, 1 MB, and a block of at least 1 MB contains
  the first byte of the bitmap.\<close>

lemma heap_overlaps_image_and_bitmap:
  assumes "image_layout L" and "sz \<noteq> 0" and "unat sz + 12 \<le> 0x800000"
  shows "\<exists>K k'. boot L (boot_kernel m screen env) = Some (True, K)
    \<and> kmalloc sz K = Some (0xC010000C, k') \<and> mmu_translate K 0xC0100000 = Some 0x100000
    \<and> in_bitmap 0xC0200000 K \<and> (0x100000 \<le> sz \<longrightarrow> 0xC0200000 - 0xC010000C < sz)"
proof (rule boot_ends [OF assms(1), of m screen env])
  fix K :: kernel
  assume e: "boot L (boot_kernel m screen env) = Some (True, K)"
    and h: "heap_state K = \<lparr>heap_start = 0xC0100000, heap_size = 0x800000, heap_used = 0\<rparr>"
    and p: "pmm_state K = \<lparr>bitmap = 0xC0200000, total_pages = 32768, allocated_pages = 0, bitmap_size = 4096\<rparr>"
    and t: "\<And>v. mmu_translate K v = (if v < 0x1000000 then Some v
           else if 0xC0000000 \<le> v \<and> v < 0xC1000000 then Some (v - 0xC0000000) else None)"
  obtain k' where "kmalloc sz K = Some (0xC010000C, k')" by (rule first_block [OF h assms(2,3)])
  moreover have "0xC0200000 - 0xC010000C < sz" if "0x100000 \<le> sz"
    using that by (auto intro: less_le_trans [of _ "0x100000"])
  ultimately show ?thesis using e p t [of "0xC0100000"] by (auto simp: in_bitmap_def)
qed

lemma heap_overlaps_image_and_bitmap_witness:
  "\<exists>K k'. boot example_layout (boot_kernel (\<lambda>_. 0) (\<lambda>_. 0) (\<lambda>_ _. 0)) = Some (True, K)
    \<and> kmalloc 0x100000 K = Some (0xC010000C, k') \<and> (0xC0200000 :: u32) - 0xC010000C < 0x100000"
  using heap_overlaps_image_and_bitmap [OF example_image, of "0x100000" "\<lambda>_. 0" "\<lambda>_. 0" "\<lambda>_ _. 0"] by auto

text \<open>A byte written by an instruction: every address with the same translation shows it. The theories
  below keep the two windows apart; here they meet.\<close>

definition mmu_write :: "u32 \<Rightarrow> u8 \<Rightarrow> kernel \<Rightarrow> kernel" where
  "mmu_write v b k =
     k\<lparr>mem := \<lambda>w. if mmu_translate k w \<noteq> None \<and> mmu_translate k w = mmu_translate k v then b else mem k w\<rparr>"

text \<open>Clearing the byte that holds the present bit of a directory entry unmaps the 4 MB of the entry.\<close>

lemma mmu_write_directory:
  assumes "\<And>w. mmu_translate k w = (if w < 0x1000000 then Some w
      else if 0xC0000000 \<le> w \<and> w < 0xC1000000 then Some (w - 0xC0000000) else None)"
    and "cr3 k < 0x200000" and "cr3 k mod 4096 = 0"
  shows "mmu_translate (mmu_write (0xC0000000 + (cr3 k + 4 * drop_bit 22 v)) 0 k) v = None"
proof -
  let ?c = "cr3 k + 4 * drop_bit 22 v"
  have p: "cr3 k AND 0xFFFFF000 = cr3 k" using assms(3) by (rule page_part_id)
  have "drop_bit 22 v < 1024" by (rule pd_index_less)
  then have c: "unat ?c < 0x1000000"
    using assms(2) by (simp add: word_less_nat_alt unat_word_ariths)
  then have "mmu_translate k ?c = Some ?c" "mmu_translate k (0xC0000000 + ?c) = Some ?c"
    using assms(1) by (simp_all add: word_less_nat_alt word_le_nat_alt unat_word_ariths)
  then have "mem (mmu_write (0xC0000000 + ?c) 0 k) ?c = 0" by (simp add: mmu_write_def)
  then have "load32 (mem (mmu_write (0xC0000000 + ?c) 0 k)) ?c AND PAGE_PRESENT = 0"
    unfolding load32_def PAGE_PRESENT_def by (intro bit_word_eqI) (auto simp: bit_simps)
  moreover have "cr3 (mmu_write (0xC0000000 + ?c) 0 k) = cr3 k" by (simp add: mmu_write_def)
  ultimately show ?thesis unfolding mmu_translate_def [of "mmu_write _ _ _"] by (simp add: p Let_def)
qed

text \<open>C39: a client that stays inside its own heap block can unmap the kernel. The image is loaded at 1 MB, so
  the page directory lies between 1 MB and 2 MB of physical memory. After the start, \<^verbatim>\<open>kmalloc\<close> of 1 MB or more
  succeeds with a block that contains an address of the directory, and clearing one byte there leaves the
  4 MB from 0xC0000000 on, the heap and the kernel's window included, without translation.\<close>

theorem heap_client_unmaps_kernel:
  assumes "image_layout L" and "0x100000 \<le> kernel_page_directory L" and "0x100000 \<le> sz" and "unat sz + 12 \<le> 0x800000"
  shows "\<exists>K p k' v. boot L (boot_kernel m screen env) = Some (True, K) \<and> kmalloc sz K = Some (p, k')
    \<and> mmu_translate k' p = Some (p - 0xC0000000) \<and> p \<le> v \<and> v < p + sz
    \<and> (\<forall>w. 0xC0000000 \<le> w \<and> w < 0xC0400000 \<longrightarrow> mmu_translate (mmu_write v 0 k') w = None)"
proof (rule boot_ends [OF assms(1), of m screen env])
  fix K :: kernel
  assume e: "boot L (boot_kernel m screen env) = Some (True, K)" and vm: "vmm_ok L K"
    and h: "heap_state K = \<lparr>heap_start = 0xC0100000, heap_size = 0x800000, heap_used = 0\<rparr>"
    and t: "\<And>v. mmu_translate K v = (if v < 0x1000000 then Some v
           else if 0xC0000000 \<le> v \<and> v < 0xC1000000 then Some (v - 0xC0000000) else None)"
    and low: "\<And>K' v. cr3 K' = cr3 K \<Longrightarrow> (\<And>a. a < 0x200000 \<Longrightarrow> mem K' a = mem K a) \<Longrightarrow>
      mmu_translate K' v = mmu_translate K v"
  obtain k' where k': "kmalloc sz K = Some (0xC010000C, k')" "cr3 k' = cr3 K" "\<And>a. a < 0x200000 \<Longrightarrow> mem k' a = mem K a"
    by (rule first_block [OF h _ assms(4)]) (use assms(3) in auto)
  note t' = low [OF k'(2,3), unfolded t]
  have d: "cr3 k' = kernel_page_directory L" "kernel_page_directory L < 0x200000" "kernel_page_directory L mod 4096 = 0"
    using vm k'(2) image_dir_low [OF assms(1)] by (auto simp: vmm_ok_def)
  let ?v = "0xC0000000 + (cr3 k' + 4 * 768)"
  have "drop_bit 22 w = 768" if "0xC0000000 \<le> w" "w < 0xC0400000" for w :: u32
    using that by (simp add: word_unat_eq_iff drop_bit_eq_div unat_div word_le_nat_alt word_less_nat_alt)
  then have "mmu_translate (mmu_write ?v 0 k') w = None" if "0xC0000000 \<le> w" "w < 0xC0400000" for w
    using mmu_write_directory [OF t', of w] d that by simp
  moreover have "unat (kernel_page_directory L) + 4096 \<le> 0x200000" using assms(1) by (simp add: image_layout_def)
  then have "0xC010000C \<le> ?v" "?v < 0xC010000C + sz"
    using assms(2-4) d(1) by (simp_all add: word_le_nat_alt word_less_nat_alt unat_word_ariths)
  ultimately show ?thesis using e k'(1) t' [of "0xC010000C"] by (intro exI [of _ K] exI [of _ "0xC010000C"] exI [of _ k'] exI [of _ ?v]) simp
qed

theorem heap_client_unmaps_kernel_witness:
  "\<exists>K p k' v. boot example_layout (boot_kernel (\<lambda>_. 0) (\<lambda>_. 0) (\<lambda>_ _. 0)) = Some (True, K)
    \<and> kmalloc 0x100000 K = Some (p, k') \<and> p \<le> v \<and> v < p + 0x100000 \<and> mmu_translate (mmu_write v 0 k') 0xC0100000 = None"
  using heap_client_unmaps_kernel [OF example_image, of "0x100000" "\<lambda>_. 0" "\<lambda>_. 0" "\<lambda>_ _. 0"]
  by (fastforce simp: example_layout_def)

text \<open>C40: the physical allocator owns the kernel's own memory. Nothing is reserved: over clear memory, with
  \<open>n\<close> the number of the frame that holds the page directory the processor uses, the allocation after
  \<open>n\<close> others hands that frame out; likewise for every frame of the image.\<close>

theorem pmm_hands_out_kernel_frames:
  assumes "image_layout L" and "\<forall>i<4096. m (0x200000 + of_nat i) = 0" and "frame < 0x200"
  shows "\<exists>K. boot L (boot_kernel m screen env) = Some (True, K)
    \<and> fst (pmm_alloc (((\<lambda>k. snd (pmm_alloc k)) ^^ frame) K)) = of_nat (frame * 4096)
    \<and> (frame = unat (kernel_page_directory L) div 4096 \<longrightarrow> cr3 K = of_nat (frame * 4096))"
proof (rule boot_ends [OF assms(1), of m screen env])
  fix K :: kernel
  assume b: "boot L (boot_kernel m screen env) = Some (True, K)" "vmm_ok L K"
    "pmm_state K = \<lparr>bitmap = 0xC0200000, total_pages = 32768, allocated_pages = 0, bitmap_size = 4096\<rparr>"
  have inv: "pmm_inv K" by (rule boot_frames [OF assms(1,2) b(1)])
  then have "allocated_frames K = {}" using fresh_bitmap(1) [OF b(3)] by simp
  moreover have "frame_count K = 32768" by (simp add: frame_count_def b(3))
  ultimately have a: "fst (pmm_alloc (((\<lambda>k. snd (pmm_alloc k)) ^^ frame) K)) = of_nat (frame * 4096)"
    using pmm.alloc_sequence_addr [OF inv] assms(3) by simp
  have "unat (kernel_page_directory L) mod 4096 = 0" using image_dir_low [OF assms(1)] by (simp add: word_unat_eq_iff unat_mod)
  then have "of_nat (unat (kernel_page_directory L) div 4096 * 4096) = kernel_page_directory L"
    by (simp add: div_mult_mod_eq [symmetric] flip: minus_mod_eq_div_mult del: of_nat_mult)
  moreover have "cr3 K = kernel_page_directory L" using b(2) by (simp add: vmm_ok_def)
  ultimately show ?thesis using a b(1) by auto
qed

theorem pmm_hands_out_kernel_frames_witness:
  "\<exists>K. boot example_layout (boot_kernel (\<lambda>_. 0) (\<lambda>_. 0) (\<lambda>_ _. 0)) = Some (True, K)
    \<and> fst (pmm_alloc (((\<lambda>k. snd (pmm_alloc k)) ^^ 264) K)) = cr3 K"
  using pmm_hands_out_kernel_frames [OF example_image, of "\<lambda>_. 0" 264 "\<lambda>_. 0" "\<lambda>_ _. 0"]
  by (auto simp: example_layout_def)

end
